theory Spec2Isabelle
  imports Complex_Main "HOL-Library.Log_Nat"
begin

section \<open>The frame render loop of the renderer (render.js)\<close>

text \<open>
  A shallow embedding of \<^verbatim>\<open>render(auto, force)\<close> from
  \<^verbatim>\<open>src/website/js/renderer/render.js\<close>. The function is a method of the
  renderer object; it reads the renderer's fields, reads and writes the module-level flag
  \<^verbatim>\<open>hasRenderedNoVoices\<close>, writes \<^verbatim>\<open>frameTimeStart\<close>, and acts on the
  outside world only through calls: the display-refresh scheduler, the drawing context,
  the layer collaborators and the optional hook. The model passes the renderer and the flag
  in, and returns both together with the chronological list of those calls and the
  exception, if any, that ended the invocation.

  JavaScript numbers are binary64 floating-point numbers. A finite one is modelled by the
  rational it denotes, and every subtraction, multiplication and division rounds its exact
  result to the nearest binary64 number, as the language does. A rational in a numeric
  field of the renderer or in a clock reading stands for the binary64 number nearest to
  it, as a numeric literal does; the two zeros are not told apart, and no input is the
  negative zero.
\<close>

subsection \<open>Data\<close>

text \<open>The playback source \<^verbatim>\<open>this.seq\<close>: the three properties that render reads.\<close>

record sequencer =
  paused :: bool
  currentTempo :: rat
  playbackRate :: rat

text \<open>The sound engine \<^verbatim>\<open>this.synth\<close>.\<close>

record synthetizer =
  voicesAmount :: nat
  highPerformanceMode :: bool

text \<open>
  Modelled from the spec: the enumeration \<^verbatim>\<open>rendererModes\<close> is declared in
  renderer.js, which is not among the sources. The spec distinguishes the waveform-only
  display mode from every other one; render compares against
  \<^verbatim>\<open>rendererModes.waveformsMode\<close> only.
\<close>

datatype rendererModes = waveformsMode | otherMode nat

record canvas =
  width :: nat
  height :: nat

text \<open>A JavaScript exception: the \<^verbatim>\<open>TypeError\<close> of a property read on
  \<^verbatim>\<open>undefined\<close>, or whatever a collaborator throws.\<close>

datatype exn = TypeError | CollaboratorError string

text \<open>
  The renderer object. \<^verbatim>\<open>seq\<close> is \<open>None\<close> when the property is
  \<^verbatim>\<open>undefined\<close>; \<^verbatim>\<open>noteTimes\<close> is \<open>None\<close> when it is falsy.
  The methods \<^verbatim>\<open>renderWaveforms\<close> and \<^verbatim>\<open>computeNotePositions\<close> are
  defined elsewhere: each is a field that says, for an argument, whether the call returns
  (and what) or throws. \<^verbatim>\<open>onRender\<close> is \<open>None\<close> when no hook is set, and
  otherwise says whether the hook returns or throws. The collaborators are taken not to
  write the fields that render reads after calling them.
\<close>

record ('n, 't) renderer =
  seq :: "sequencer option"
  synth :: synthetizer
  rendererMode :: rendererModes
  renderBool :: bool
  renderAnalysers :: bool
  renderNotes :: bool
  noteTimes :: "'t option"
  sideways :: bool
  frameTimeStart :: rat
  canvas :: canvas
  version :: string
  notesOnScreen :: nat
  currentTimeSignature :: string
  showHoldPedal :: bool
  holdPedalIsDownText :: string
  renderWaveforms :: "bool \<Rightarrow> exn option"
  computeNotePositions :: "bool \<Rightarrow> exn + 'n list"
  onRender :: "exn option option"

text \<open>
  The two imports of render.js: the constant \<^verbatim>\<open>FONT_SIZE\<close> of renderer.js and the
  function \<^verbatim>\<open>drawNotes\<close> of draw\_notes.js. Neither file is among the sources, so
  both are parameters. The third parameter is the language's conversion of a finite number
  to a string, for the numbers outside the range that \<open>numberToString\<close> below covers.
\<close>

record 'n imported =
  FONT_SIZE :: nat
  drawNotes :: "'n list \<Rightarrow> bool \<Rightarrow> exn option"
  hostNumberToString :: "rat \<Rightarrow> string"

text \<open>The calls render makes, and the assignments to properties of the drawing context.\<close>

datatype 'n event =
    RequestAnimationFrame
  | ClearRect rat rat rat rat
  | RenderWaveforms bool
  | ComputeNotePositions bool
  | DrawNotes "'n list" bool
  | SetTextBaseline string
  | SetTextAlign string
  | SetFont string
  | SetFillStyle string
  | SetStrokeStyle string
  | FillText string rat rat
  | OnRender

text \<open>A stretch of the function body: the events it emitted and the exception that cut
  it short, if one did.\<close>

type_synonym 'n run = "'n event list \<times> exn option"

definition andThen :: "'n run \<Rightarrow> 'n run \<Rightarrow> 'n run" where
  "andThen p q = (case snd p of Some e \<Rightarrow> p | None \<Rightarrow> (fst p @ fst q, snd q))"

text \<open>What one invocation leaves behind.\<close>

record ('n, 't) outcome =
  self_after :: "('n, 't) renderer"
  flag_after :: bool
  trace :: "'n event list"
  thrown :: "exn option"

subsection \<open>Numbers\<close>

text \<open>A JavaScript number: a finite binary64 number, given by its value, an infinity, or
  not a number.\<close>

datatype number = Finite rat | Infinity | NegInfinity | NaN

definition pow2 :: "int \<Rightarrow> rat" where
  "pow2 e = 2 powi e"

text \<open>For a positive \<open>x\<close>, the exponent \<open>e\<close> with \<open>2 ^ e \<le> x < 2 ^ (e + 1)\<close>.\<close>

definition ilog2 :: "rat \<Rightarrow> int" where
  "ilog2 x = (if 1 \<le> x then bitlen \<lfloor>x\<rfloor> - 1 else - bitlen (\<lceil>1 / x\<rceil> - 1))"

text \<open>To the nearest integer, a tie going to the even one.\<close>

definition roundHalfEven :: "rat \<Rightarrow> int" where
  "roundHalfEven y =
     (let f = \<lfloor>y\<rfloor>; d = y - of_int f
      in if d < 1 / 2 then f else if 1 / 2 < d then f + 1 else if even f then f else f + 1)"

text \<open>
  The binary64 number nearest to a rational, a tie going to the even significand: 53
  significant bits, the least exponent that of the subnormal numbers, and an infinity when
  the rounded value reaches \<open>2 ^ 1024\<close>.
\<close>

definition roundToDouble :: "rat \<Rightarrow> number" where
  "roundToDouble x =
     (if x = 0 then Finite 0
      else (let a = \<bar>x\<bar>;
                e = max (ilog2 a) (- 1022);
                q = pow2 (e - 52);
                r = of_int (roundHalfEven (a / q)) * q
            in if pow2 1024 \<le> r then (if x < 0 then NegInfinity else Infinity)
               else Finite (if x < 0 then - r else r)))"

definition negate :: "number \<Rightarrow> number" where
  "negate x =
     (case x of Finite a \<Rightarrow> Finite (- a) | Infinity \<Rightarrow> NegInfinity
      | NegInfinity \<Rightarrow> Infinity | NaN \<Rightarrow> NaN)"

text \<open>The operators \<^verbatim>\<open>-\<close>, \<^verbatim>\<open>*\<close> and \<^verbatim>\<open>/\<close> on numbers.\<close>

fun jsSub :: "number \<Rightarrow> number \<Rightarrow> number" where
  "jsSub (Finite a) (Finite b) = roundToDouble (a - b)"
| "jsSub NaN y = NaN"
| "jsSub x NaN = NaN"
| "jsSub Infinity Infinity = NaN"
| "jsSub NegInfinity NegInfinity = NaN"
| "jsSub Infinity y = Infinity"
| "jsSub NegInfinity y = NegInfinity"
| "jsSub (Finite a) Infinity = NegInfinity"
| "jsSub (Finite a) NegInfinity = Infinity"

fun jsMul :: "number \<Rightarrow> number \<Rightarrow> number" where
  "jsMul (Finite a) (Finite b) = roundToDouble (a * b)"
| "jsMul NaN y = NaN"
| "jsMul x NaN = NaN"
| "jsMul (Finite a) y = (if a = 0 then NaN else if 0 < a then y else negate y)"
| "jsMul x (Finite b) = (if b = 0 then NaN else if 0 < b then x else negate x)"
| "jsMul Infinity y = y"
| "jsMul NegInfinity y = negate y"

fun jsDiv :: "number \<Rightarrow> number \<Rightarrow> number" where
  "jsDiv (Finite a) (Finite b) =
     (if b = 0 then (if a = 0 then NaN else if 0 < a then Infinity else NegInfinity)
      else roundToDouble (a / b))"
| "jsDiv NaN y = NaN"
| "jsDiv x NaN = NaN"
| "jsDiv (Finite a) y = Finite 0"
| "jsDiv Infinity (Finite b) = (if 0 \<le> b then Infinity else NegInfinity)"
| "jsDiv NegInfinity (Finite b) = (if 0 \<le> b then NegInfinity else Infinity)"
| "jsDiv Infinity y = NaN"
| "jsDiv NegInfinity y = NaN"

text \<open>\<^verbatim>\<open>Math.round\<close>: to the nearest integer, a tie going up; the result of rounding a
  binary64 number is one.\<close>

fun mathRound :: "number \<Rightarrow> number" where
  "mathRound (Finite x) = Finite (of_int \<lfloor>x + 1 / 2\<rfloor>)"
| "mathRound x = x"

subsection \<open>Numbers to strings\<close>

definition digitChar :: "nat \<Rightarrow> char" where
  "digitChar d = ''0123456789'' ! d"

fun natToString :: "nat \<Rightarrow> string" where
  "natToString n =
     (if n < 10 then [digitChar n] else natToString (n div 10) @ [digitChar (n mod 10)])"

declare natToString.simps [simp del]

definition intToString :: "int \<Rightarrow> string" where
  "intToString i = (if i < 0 then ''-'' @ natToString (nat (- i)) else natToString (nat i))"

text \<open>The decimal text of \<open>k / 100\<close> for an integer \<open>k\<close>, as \<^verbatim>\<open>toString\<close> prints
  it: no trailing zero, no decimal point for a whole number, no sign for zero.\<close>

definition hundredthsToString :: "int \<Rightarrow> string" where
  "hundredthsToString k =
     (let a = nat \<bar>k\<bar>; whole = a div 100; cents = a mod 100
      in (if k < 0 then ''-'' else '''') @ natToString whole @
         (if cents = 0 then ''''
          else ''.'' @ [digitChar (cents div 10)] @
               (if cents mod 10 = 0 then '''' else [digitChar (cents mod 10)])))"

text \<open>
  The conversion of a number to a string, as \<^verbatim>\<open>toString\<close> and \<^verbatim>\<open>+\<close> with a
  string do it. A finite number that is the binary64 number nearest to \<open>k / 100\<close> for an
  integer \<open>k\<close> below \<open>10 ^ 15\<close> in magnitude is printed as those hundredths: at that size
  no shorter decimal denotes the same binary64 number. Any other finite number is left to
  the language.
\<close>

definition numberToString :: "'n imported \<Rightarrow> number \<Rightarrow> string" where
  "numberToString env x =
     (case x of
        NaN \<Rightarrow> ''NaN''
      | Infinity \<Rightarrow> ''Infinity''
      | NegInfinity \<Rightarrow> ''-Infinity''
      | Finite v \<Rightarrow>
          (let k = \<lfloor>v * 100 + 1 / 2\<rfloor>
           in if \<bar>k\<bar> < 10 ^ 15 \<and> roundToDouble (of_int k / 100) = Finite v
              then hundredthsToString k
              else hostNumberToString env v))"

text \<open>Reading a decimal numeral back: an optional sign, digits, and an optional point
  followed by digits.\<close>

definition digitOf :: "char \<Rightarrow> nat" where
  "digitOf c = of_char c - 48"

definition natOfString :: "string \<Rightarrow> nat" where
  "natOfString cs = foldl (\<lambda>n c. 10 * n + digitOf c) 0 cs"

definition unsignedValue :: "string \<Rightarrow> rat" where
  "unsignedValue cs =
     (let whole = takeWhile (\<lambda>c. c \<noteq> CHR ''.'') cs;
          frac = drop 1 (dropWhile (\<lambda>c. c \<noteq> CHR ''.'') cs)
      in of_nat (natOfString whole) + of_nat (natOfString frac) / 10 ^ length frac)"

definition decimalValue :: "string \<Rightarrow> rat" where
  "decimalValue cs =
     (case cs of
        [] \<Rightarrow> 0
      | c # rest \<Rightarrow> if c = CHR ''-'' then - unsignedValue rest else unsignedValue cs)"

subsection \<open>The function\<close>

text \<open>Lines 14 to 18.\<close>

definition nothingToDo :: "('n, 't) renderer \<Rightarrow> bool \<Rightarrow> bool" where
  "nothingToDo r force \<longleftrightarrow>
     (case seq r of None \<Rightarrow> True | Some s \<Rightarrow> paused s)
     \<and> voicesAmount (synth r) = 0
     \<and> rendererMode r = waveformsMode
     \<and> \<not> force"

text \<open>Lines 42 to 46.\<close>

definition schedule :: "('n, 't) renderer \<Rightarrow> bool \<Rightarrow> 'n event list" where
  "schedule r auto =
     (if auto
      then [RequestAnimationFrame,
            ClearRect 0 0 (of_nat (width (canvas r))) (of_nat (height (canvas r)))]
      else [])"

text \<open>Lines 48 to 52.\<close>

definition waveformLayer :: "('n, 't) renderer \<Rightarrow> bool \<Rightarrow> 'n run" where
  "waveformLayer r forceStraight =
     (if renderAnalysers r \<and> \<not> highPerformanceMode (synth r)
      then ([RenderWaveforms forceStraight], renderWaveforms r forceStraight)
      else ([], None))"

text \<open>Lines 54 to 67.\<close>

definition noteLayer :: "'n imported \<Rightarrow> ('n, 't) renderer \<Rightarrow> 'n run" where
  "noteLayer env r =
     (if renderNotes r \<and> noteTimes r \<noteq> None
      then (case computeNotePositions r (highPerformanceMode (synth r)) of
              Inl e \<Rightarrow> ([ComputeNotePositions (highPerformanceMode (synth r))], Some e)
            | Inr notesToDraw \<Rightarrow>
                andThen ([ComputeNotePositions (highPerformanceMode (synth r))], None)
                  (if \<not> highPerformanceMode (synth r)
                   then ([DrawNotes notesToDraw (sideways r)],
                         drawNotes env notesToDraw (sideways r))
                   else ([], None)))
      else ([], None))"

definition layers :: "'n imported \<Rightarrow> ('n, 't) renderer \<Rightarrow> bool \<Rightarrow> 'n run" where
  "layers env r forceStraight = andThen (waveformLayer r forceStraight) (noteLayer env r)"

text \<open>Lines 70 and 72: the subtraction and the division.\<close>

definition fpsOf :: "rat \<Rightarrow> rat \<Rightarrow> number" where
  "fpsOf now lastStart =
     (let timeSinceLastFrame = jsSub (roundToDouble now) (roundToDouble lastStart)
      in jsDiv (Finite 1000) timeSinceLastFrame)"

text \<open>Lines 75 to 82.\<close>

definition hud :: "'n imported \<Rightarrow> ('n, 't) renderer \<Rightarrow> number \<Rightarrow> 'n run" where
  "hud env r fps =
     ([SetTextBaseline ''hanging'',
       SetTextAlign ''end'',
       SetFont (natToString (FONT_SIZE env) @ ''px monospace''),
       SetFillStyle ''white'',
       SetStrokeStyle ''white'',
       FillText (numberToString env (mathRound fps) @ '' FPS'')
         (of_nat (width (canvas r))) (of_nat (FONT_SIZE env * 2 + 5)),
       FillText (version r) (of_nat (width (canvas r))) 5,
       FillText (natToString (notesOnScreen r) @ '' notes'')
         (of_nat (width (canvas r))) (of_nat (FONT_SIZE env + 5))],
      None)"

text \<open>Line 89: the text of the tempo label.\<close>

definition tempoProduct :: "sequencer \<Rightarrow> number" where
  "tempoProduct s =
     jsMul (jsMul (roundToDouble (currentTempo s)) (roundToDouble (playbackRate s)))
       (Finite 100)"

definition tempoLabel :: "'n imported \<Rightarrow> sequencer \<Rightarrow> string" where
  "tempoLabel env s =
     numberToString env (jsDiv (mathRound (tempoProduct s)) (Finite 100)) @ ''BPM''"

text \<open>Lines 85 to 94. The alignment is assigned before the arguments of the first
  \<^verbatim>\<open>fillText\<close> are evaluated; reading \<^verbatim>\<open>currentTempo\<close> of an undefined
  \<^verbatim>\<open>this.seq\<close> throws.\<close>

definition tempoHud :: "'n imported \<Rightarrow> ('n, 't) renderer \<Rightarrow> 'n run" where
  "tempoHud env r =
     (if noteTimes r \<noteq> None
      then (case seq r of
              None \<Rightarrow> ([SetTextAlign ''start''], Some TypeError)
            | Some s \<Rightarrow>
                ([SetTextAlign ''start'',
                  FillText (tempoLabel env s) 0 5,
                  FillText (currentTimeSignature r) 0 (of_nat (FONT_SIZE env + 5))],
                 None))
      else ([], None))"

text \<open>Lines 97 to 102.\<close>

definition holdPedal :: "'n imported \<Rightarrow> ('n, 't) renderer \<Rightarrow> 'n run" where
  "holdPedal env r =
     (if showHoldPedal r
      then ([SetFont (natToString (FONT_SIZE env * 3) @ ''px monospace''),
             SetTextAlign ''center'',
             FillText (holdPedalIsDownText r)
               (of_nat (width (canvas r)) / 2) (of_nat (height (canvas r)) / 4)],
            None)
      else ([], None))"

text \<open>Lines 105 to 108.\<close>

definition hook :: "('n, 't) renderer \<Rightarrow> 'n run" where
  "hook r = (case onRender r of None \<Rightarrow> ([], None) | Some res \<Rightarrow> ([OnRender], res))"

definition overlay :: "'n imported \<Rightarrow> ('n, 't) renderer \<Rightarrow> number \<Rightarrow> 'n run" where
  "overlay env r fps =
     andThen (hud env r fps) (andThen (tempoHud env r) (andThen (holdPedal env r) (hook r)))"

text \<open>
  Lines 42 to 108: everything after the idle decision. \<open>flag\<close> is the value the decision
  gave \<^verbatim>\<open>hasRenderedNoVoices\<close>; \<open>now1\<close> and \<open>now2\<close> are the values of the two
  reads of \<^verbatim>\<open>performance.now()\<close>, on lines 70 and 71. When a layer throws, line 71
  is not reached and \<^verbatim>\<open>frameTimeStart\<close> keeps its value.
\<close>

definition compose ::
  "'n imported \<Rightarrow> ('n, 't) renderer \<Rightarrow> bool \<Rightarrow> bool \<Rightarrow> bool \<Rightarrow> rat \<Rightarrow> rat \<Rightarrow> ('n, 't) outcome"
where
  "compose env r flag auto forceStraight now1 now2 =
     (let drawn = layers env r forceStraight
      in case snd drawn of
           Some e \<Rightarrow>
             \<lparr>self_after = r, flag_after = flag,
              trace = schedule r auto @ fst drawn, thrown = Some e\<rparr>
         | None \<Rightarrow>
             (let fps = fpsOf now1 (frameTimeStart r);
                  over = overlay env r fps
              in \<lparr>self_after = r\<lparr>frameTimeStart := now2\<rparr>, flag_after = flag,
                  trace = schedule r auto @ fst drawn @ fst over, thrown = snd over\<rparr>))"

text \<open>
  The whole function. \<open>g\<close> is the value of \<^verbatim>\<open>hasRenderedNoVoices\<close> on entry.
  The parameters' defaults (\<^verbatim>\<open>auto = true\<close>, \<^verbatim>\<open>force = false\<close>) are the
  caller's concern: both arguments are explicit here.
\<close>

definition render ::
  "'n imported \<Rightarrow> ('n, 't) renderer \<Rightarrow> bool \<Rightarrow> bool \<Rightarrow> bool \<Rightarrow> rat \<Rightarrow> rat \<Rightarrow> ('n, 't) outcome"
where
  "render env r g auto force now1 now2 =
     (if \<not> renderBool r \<or> nothingToDo r force
      then (if g
            then \<lparr>self_after = r, flag_after = g,
                  trace = (if auto then [RequestAnimationFrame] else []), thrown = None\<rparr>
            else compose env r True auto True now1 now2)
      else compose env r False auto False now1 now2)"

subsection \<open>The idle decision, and what a trace shows\<close>

text \<open>
  The three ways through lines 20 to 40: the early return, the branch that sets
  \<^verbatim>\<open>forceStraight\<close> (the settle frame), and the \<^verbatim>\<open>else\<close> branch.
\<close>

datatype decision = Skip | Settle | Active

definition decide :: "('n, 't) renderer \<Rightarrow> bool \<Rightarrow> bool \<Rightarrow> decision" where
  "decide r g force =
     (if \<not> renderBool r \<or> nothingToDo r force then (if g then Skip else Settle) else Active)"

text \<open>The events of a trace that touch the drawing surface or a collaborator: all but the
  requests to the scheduler.\<close>

definition drawOps :: "'n event list \<Rightarrow> 'n event list" where
  "drawOps tr = filter (\<lambda>e. e \<noteq> RequestAnimationFrame) tr"

definition drew :: "('n, 't) outcome \<Rightarrow> bool" where
  "drew res \<longleftrightarrow> drawOps (trace res) \<noteq> []"

fun isFillText :: "'n event \<Rightarrow> bool" where
  "isFillText (FillText txt x y) = True"
| "isFillText e = False"

fun isDrawNotes :: "'n event \<Rightarrow> bool" where
  "isDrawNotes (DrawNotes notes sw) = True"
| "isDrawNotes e = False"

fun isRenderWaveforms :: "'n event \<Rightarrow> bool" where
  "isRenderWaveforms (RenderWaveforms b) = True"
| "isRenderWaveforms e = False"

fun isComputeNotePositions :: "'n event \<Rightarrow> bool" where
  "isComputeNotePositions (ComputeNotePositions b) = True"
| "isComputeNotePositions e = False"

text \<open>
  A run of invocations. The module-level flag is threaded from one invocation to the next;
  each invocation comes with the renderer as the host left it at that moment, its two
  arguments and its two clock readings.
\<close>

record ('n, 't) invocation =
  self :: "('n, 't) renderer"
  autoArg :: bool
  forceArg :: bool
  clock1 :: rat
  clock2 :: rat

fun renderCalls ::
  "'n imported \<Rightarrow> bool \<Rightarrow> ('n, 't) invocation list \<Rightarrow> ('n, 't) outcome list"
where
  "renderCalls env g [] = []"
| "renderCalls env g (c # cs) =
     (let res = render env (self c) g (autoArg c) (forceArg c) (clock1 c) (clock2 c)
      in res # renderCalls env (flag_after res) cs)"

text \<open>An invocation that takes the branch of line 20: rendering is switched off, or
  there is nothing to do.\<close>

definition idleBranch :: "('n, 't) invocation \<Rightarrow> bool" where
  "idleBranch c \<longleftrightarrow> \<not> renderBool (self c) \<or> nothingToDo (self c) (forceArg c)"

subsection \<open>Concrete inputs\<close>

definition exampleImports :: "nat imported" where
  "exampleImports =
     \<lparr>FONT_SIZE = 16, drawNotes = (\<lambda>notes sw. None),
      hostNumberToString = (\<lambda>v. ''(other)'')\<rparr>"

text \<open>A renderer with no sequencer connected, nothing sounding, in waveform mode.\<close>

definition idleRenderer :: "(nat, nat) renderer" where
  "idleRenderer =
     \<lparr>seq = None,
      synth = \<lparr>voicesAmount = 0, highPerformanceMode = False\<rparr>,
      rendererMode = waveformsMode,
      renderBool = True,
      renderAnalysers = True,
      renderNotes = True,
      noteTimes = None,
      sideways = False,
      frameTimeStart = 0,
      canvas = \<lparr>width = 800, height = 600\<rparr>,
      version = ''v3'',
      notesOnScreen = 0,
      currentTimeSignature = ''4/4'',
      showHoldPedal = False,
      holdPedalIsDownText = ''Hold pedal is down'',
      renderWaveforms = (\<lambda>forceStraight. None),
      computeNotePositions = (\<lambda>hp. Inr []),
      onRender = None\<rparr>"

definition exampleSequencer :: sequencer where
  "exampleSequencer = \<lparr>paused = False, currentTempo = 120, playbackRate = 3 / 2\<rparr>"

text \<open>The same renderer while a song plays: a sequencer, note times, one voice sounding.\<close>

definition playingRenderer :: "(nat, nat) renderer" where
  "playingRenderer =
     idleRenderer\<lparr>seq := Some exampleSequencer,
                  synth := \<lparr>voicesAmount = 1, highPerformanceMode = False\<rparr>,
                  noteTimes := Some 0\<rparr>"

text \<open>The playing renderer with rendering switched off.\<close>

definition disabledRenderer :: "(nat, nat) renderer" where
  "disabledRenderer = playingRenderer\<lparr>renderBool := False\<rparr>"

text \<open>The playing renderer in high-performance mode.\<close>

definition denseRenderer :: "(nat, nat) renderer" where
  "denseRenderer =
     playingRenderer\<lparr>synth := \<lparr>voicesAmount = 1, highPerformanceMode = True\<rparr>\<rparr>"

text \<open>Note times are set, the hold pedal is shown and a hook is installed, but no
  sequencer is connected.\<close>

definition orphanRenderer :: "(nat, nat) renderer" where
  "orphanRenderer =
     idleRenderer\<lparr>noteTimes := Some 0, showHoldPedal := True, onRender := Some None\<rparr>"

text \<open>The playing renderer with a waveform collaborator that throws.\<close>

definition throwingRenderer :: "(nat, nat) renderer" where
  "throwingRenderer =
     playingRenderer\<lparr>renderWaveforms := (\<lambda>forceStraight. Some (CollaboratorError ''lost''))\<rparr>"

definition idleCall :: "(nat, nat) invocation" where
  "idleCall =
     \<lparr>self = idleRenderer, autoArg = True, forceArg = False, clock1 = 16, clock2 = 16\<rparr>"

definition playingCall :: "(nat, nat) invocation" where
  "playingCall =
     \<lparr>self = playingRenderer, autoArg = True, forceArg = False, clock1 = 16, clock2 = 16\<rparr>"

definition disabledCall :: "(nat, nat) invocation" where
  "disabledCall =
     \<lparr>self = disabledRenderer, autoArg = True, forceArg = False, clock1 = 16, clock2 = 16\<rparr>"

definition forcedDisabledCall :: "(nat, nat) invocation" where
  "forcedDisabledCall =
     \<lparr>self = disabledRenderer, autoArg = True, forceArg = True, clock1 = 16, clock2 = 16\<rparr>"

section \<open>Properties\<close>

subsection \<open>Evaluating the numeric functions\<close>

lemma floor_rat_numeral: "\<lfloor>(numeral a / numeral b :: rat)\<rfloor> = numeral a div numeral b"
  by (metis floor_divide_of_int_eq of_int_numeral)

lemma ceiling_rat_numeral:
  "\<lceil>(numeral a / numeral b :: rat)\<rceil> = - ((- numeral a) div numeral b)"
proof -
  have "\<lfloor>(of_int (- numeral a) / of_int (numeral b) :: rat)\<rfloor> = (- numeral a) div numeral b"
    by (rule floor_divide_of_int_eq)
  then show ?thesis
    by (simp add: ceiling_def)
qed

lemma bitlen_step: "0 < x \<Longrightarrow> bitlen x = bitlen (x div 2) + 1"
  by (subst compute_bitlen) simp

lemmas double_eval =
  roundToDouble_def roundHalfEven_def ilog2_def pow2_def Let_def
  floor_rat_numeral ceiling_rat_numeral bitlen_step

lemma roundToDouble_examples:
  "roundToDouble 100 = Finite 100"
  "roundToDouble (3 / 2) = Finite (3 / 2)"
  "roundToDouble (6001 / 100) = Finite (8445656676203233 / 140737488355328)"
  "roundToDouble (32 / 10) = Finite (3602879701896397 / 1125899906842624)"
  "roundToDouble (1 / 1000) = Finite (1152921504606847 / 1152921504606846976)"
  "roundToDouble (2 ^ 53 + 1) = Finite (2 ^ 53)"
  "roundToDouble (2 ^ 53 + 3) = Finite (2 ^ 53 + 4)"
  by (simp_all add: double_eval)

subsection \<open>Binary64 rounding\<close>

lemma pow2_pos: "0 < pow2 e"
  by (simp add: pow2_def)

lemma pow2_mono: "e \<le> e' \<Longrightarrow> pow2 e \<le> pow2 e'"
  by (simp add: pow2_def power_int_increasing)

lemma pow2_nat: "0 \<le> e \<Longrightarrow> pow2 e = 2 ^ nat e"
  by (simp add: pow2_def power_int_def)

lemma pow2_neg: "e \<le> 0 \<Longrightarrow> pow2 e = 1 / 2 ^ nat (- e)"
  by (cases "e = 0") (simp_all add: pow2_def power_int_def power_one_over)

lemma ilog2_lower:
  assumes "0 < a"
  shows "pow2 (ilog2 a) \<le> a"
proof (cases "1 \<le> a")
  case True
  then have pos: "0 < \<lfloor>a\<rfloor>" by simp
  from bitlen_bounds [OF pos] have "(2::int) ^ nat (bitlen \<lfloor>a\<rfloor> - 1) \<le> \<lfloor>a\<rfloor>" ..
  then have "(of_int ((2::int) ^ nat (bitlen \<lfloor>a\<rfloor> - 1)) :: rat) \<le> of_int \<lfloor>a\<rfloor>"
    by (simp only: of_int_le_iff)
  also have "\<dots> \<le> a" by simp
  finally have le: "(2::rat) ^ nat (bitlen \<lfloor>a\<rfloor> - 1) \<le> a" by simp
  from pos have "1 \<le> bitlen \<lfloor>a\<rfloor>"
    using bitlen_eq_zero_iff [of "\<lfloor>a\<rfloor>"] bitlen_nonneg [of "\<lfloor>a\<rfloor>"] by linarith
  then have "pow2 (bitlen \<lfloor>a\<rfloor> - 1) = 2 ^ nat (bitlen \<lfloor>a\<rfloor> - 1)"
    by (simp add: pow2_nat)
  with le True show ?thesis by (simp add: ilog2_def)
next
  case False
  with assms have inv: "1 < 1 / a" by simp
  let ?m = "\<lceil>1 / a\<rceil> - 1"
  from inv have "1 < \<lceil>1 / a\<rceil>" by (simp add: less_ceiling_iff)
  then have pos: "0 < ?m" by simp
  from bitlen_bounds [OF pos] have "?m < 2 ^ nat (bitlen ?m)" ..
  then have "\<lceil>1 / a\<rceil> \<le> 2 ^ nat (bitlen ?m)" by simp
  then have "(of_int \<lceil>1 / a\<rceil> :: rat) \<le> of_int (2 ^ nat (bitlen ?m))"
    by (simp only: of_int_le_iff)
  with le_of_int_ceiling [of "1 / a"]
  have "1 / a \<le> of_int (2 ^ nat (bitlen ?m))"
    by (rule order_trans)
  then have "1 / a \<le> 2 ^ nat (bitlen ?m)"
    by simp
  with assms have "1 \<le> 2 ^ nat (bitlen ?m) * a"
    by (simp add: divide_le_eq)
  then have "1 / 2 ^ nat (bitlen ?m) \<le> a"
    by (simp add: divide_le_eq mult.commute)
  moreover have "pow2 (- bitlen ?m) = 1 / 2 ^ nat (bitlen ?m)"
    using bitlen_nonneg [of ?m] by (simp add: pow2_neg)
  ultimately show ?thesis using False by (simp add: ilog2_def)
qed

lemma roundHalfEven_near: "\<bar>of_int (roundHalfEven y) - y\<bar> \<le> 1 / 2"
proof -
  have "of_int \<lfloor>y\<rfloor> \<le> y" "y < of_int \<lfloor>y\<rfloor> + 1"
    by linarith+
  then show ?thesis
    by (auto simp: roundHalfEven_def Let_def)
qed

lemma roundHalfEven_of_int: "roundHalfEven (of_int m) = m"
  by (simp add: roundHalfEven_def)

lemma roundToDouble_near:
  assumes small: "\<bar>x\<bar> < 2 ^ 44"
  shows "\<exists>v. roundToDouble x = Finite v \<and> \<bar>v - x\<bar> \<le> 1 / 1024"
proof (cases "x = 0")
  case True
  then show ?thesis by (simp add: roundToDouble_def)
next
  case False
  define a where "a = \<bar>x\<bar>"
  define e where "e = max (ilog2 a) (- 1022)"
  define q where "q = pow2 (e - 52)"
  define r where "r = of_int (roundHalfEven (a / q)) * q"
  from False have apos: "0 < a" by (simp add: a_def)
  have qpos: "0 < q" by (simp add: q_def pow2_pos)
  have "ilog2 a < 44"
  proof (rule ccontr)
    assume "\<not> ilog2 a < 44"
    then have "pow2 44 \<le> pow2 (ilog2 a)" by (intro pow2_mono) simp
    also have "\<dots> \<le> a" by (rule ilog2_lower [OF apos])
    finally show False using small by (simp add: a_def pow2_def)
  qed
  then have "e - 52 \<le> - 9" by (simp add: e_def)
  then have "q \<le> pow2 (- 9)" unfolding q_def by (rule pow2_mono)
  then have qle: "q \<le> 1 / 512" by (simp add: pow2_def)
  have "\<bar>of_int (roundHalfEven (a / q)) - a / q\<bar> * q \<le> (1 / 2) * q"
    using roundHalfEven_near [of "a / q"] qpos by (intro mult_right_mono) simp_all
  moreover have "\<bar>of_int (roundHalfEven (a / q)) - a / q\<bar> * q = \<bar>r - a\<bar>"
  proof -
    have "\<bar>of_int (roundHalfEven (a / q)) - a / q\<bar> * q
        = \<bar>(of_int (roundHalfEven (a / q)) - a / q) * q\<bar>"
      using qpos by (simp add: abs_mult)
    also have "(of_int (roundHalfEven (a / q)) - a / q) * q = r - a"
      using qpos by (simp add: r_def left_diff_distrib)
    finally show ?thesis .
  qed
  ultimately have near: "\<bar>r - a\<bar> \<le> 1 / 1024"
    using qle by linarith
  from near have "r \<le> a + 1 / 1024" by linarith
  with small have "r < 2 ^ 44 + 1" unfolding a_def by linarith
  also have "\<dots> \<le> (2::rat) ^ 1024" by simp
  finally have fin: "\<not> pow2 1024 \<le> r" by (simp add: pow2_def)
  have val: "roundToDouble x = Finite (if x < 0 then - r else r)"
    using False fin
    by (simp add: roundToDouble_def Let_def a_def e_def q_def r_def)
  have "\<bar>(if x < 0 then - r else r) - x\<bar> = \<bar>r - a\<bar>"
    by (auto simp: a_def)
  with near val show ?thesis by auto
qed

lemma roundToDouble_of_int:
  assumes small: "\<bar>n\<bar> < 2 ^ 53"
  shows "roundToDouble (of_int n) = Finite (of_int n)"
proof (cases "n = 0")
  case True
  then show ?thesis by (simp add: roundToDouble_def)
next
  case False
  define a :: rat where "a = \<bar>of_int n\<bar>"
  define j where "j = nat (52 - (bitlen \<bar>n\<bar> - 1))"
  from False have npos: "0 < \<bar>n\<bar>" by simp
  have a_int: "a = of_int \<bar>n\<bar>" by (simp add: a_def)
  from npos have one: "1 \<le> a" by (simp add: a_int)
  have fl: "\<lfloor>a\<rfloor> = \<bar>n\<bar>" unfolding a_int by (rule floor_of_int)
  have "bitlen \<bar>n\<bar> \<le> 53"
    using small by (simp add: bitlen_le_iff_power)
  moreover from npos have "1 \<le> bitlen \<bar>n\<bar>"
    using bitlen_eq_zero_iff [of "\<bar>n\<bar>"] bitlen_nonneg [of "\<bar>n\<bar>"] by linarith
  ultimately have e: "max (ilog2 a) (- 1022) - 52 = - int j"
    using one by (simp add: ilog2_def fl j_def)
  have q: "pow2 (max (ilog2 a) (- 1022) - 52) = 1 / 2 ^ j"
    by (simp add: e pow2_neg)
  have quot: "a / (1 / 2 ^ j) = of_int (\<bar>n\<bar> * 2 ^ j)"
    by (simp add: a_int)
  have r: "of_int (roundHalfEven (a / (1 / 2 ^ j))) * (1 / 2 ^ j) = a"
    by (simp only: quot roundHalfEven_of_int) (simp add: a_int)
  have "a < 2 ^ 53" using small by (simp add: a_int)
  also have "\<dots> \<le> (2::rat) ^ 1024" by simp
  finally have fin: "\<not> pow2 1024 \<le> a" by (simp add: pow2_def)
  have "(if of_int n < (0::rat) then - a else a) = of_int n"
    by (simp add: a_def)
  with False fin show ?thesis
    unfolding roundToDouble_def Let_def a_def [symmetric] q r
    by simp
qed

lemma natToString_small: "n < 10 \<Longrightarrow> natToString n = [digitChar n]"
  by (simp add: natToString.simps)

lemma natToString_large:
  "10 \<le> n \<Longrightarrow> natToString n = natToString (n div 10) @ [digitChar (n mod 10)]"
  by (subst natToString.simps) simp

lemmas toString_eval =
  natToString_small natToString_large digitChar_def intToString_def
  hundredthsToString_def numberToString_def double_eval

lemma hundredthsToString_examples:
  "hundredthsToString 18000 = ''180''"
  "hundredthsToString 12050 = ''120.5''"
  "hundredthsToString 13333 = ''133.33''"
  "hundredthsToString (- 5) = ''-0.05''"
  "hundredthsToString 0 = ''0''"
  by (simp_all add: toString_eval)

lemma numberToString_examples:
  "numberToString env (Finite 10) = ''10''"
  "numberToString env (mathRound (jsDiv (Finite 1000) (roundToDouble (32 / 10)))) = ''313''"
  "numberToString env
     (jsDiv (mathRound (jsMul (jsMul (roundToDouble (6001 / 100)) (roundToDouble (3 / 2)))
        (Finite 100))) (Finite 100)) = ''90.02''"
  "numberToString env
     (jsDiv (mathRound (jsMul (jsMul (jsDiv (Finite 60000000) (Finite 844800))
        (roundToDouble (11 / 10))) (Finite 100))) (Finite 100)) = ''78.13''"
  by (simp_all add: toString_eval)

text \<open>The numbers the overlay prints, in the range of everyday values.\<close>

lemma numberToString_hundredths:
  assumes "\<bar>k\<bar> < 10 ^ 15"
  shows "numberToString env (roundToDouble (of_int k / 100)) = hundredthsToString k"
proof -
  have "\<bar>(of_int k / 100 :: rat)\<bar> < 2 ^ 44"
  proof -
    from assms have "(of_int \<bar>k\<bar> :: rat) < of_int (10 ^ 15)"
      by (simp only: of_int_less_iff)
    then have "\<bar>(of_int k :: rat)\<bar> < 10 ^ 15" by simp
    then show ?thesis by simp
  qed
  from roundToDouble_near [OF this]
  obtain v where v: "roundToDouble (of_int k / 100) = Finite v"
    and near: "\<bar>v - of_int k / 100\<bar> \<le> 1 / 1024"
    by blast
  have "\<lfloor>v * 100 + 1 / 2\<rfloor> = k"
  proof (rule floor_unique)
    from near show "of_int k \<le> v * 100 + 1 / 2" by linarith
    from near show "v * 100 + 1 / 2 < of_int k + 1" by linarith
  qed
  with assms v show ?thesis
    by (simp add: numberToString_def)
qed

text \<open>Distinct hundredths in that range are distinct binary64 numbers, so the numeral
  printed determines the number.\<close>

lemma roundToDouble_hundredths_inj:
  assumes k: "\<bar>k\<bar> < 10 ^ 15" and k': "\<bar>k'\<bar> < 10 ^ 15"
    and eq: "roundToDouble (of_int k / 100) = roundToDouble (of_int k' / 100)"
  shows "k = k'"
proof -
  have small: "\<bar>(of_int j / 100 :: rat)\<bar> < 2 ^ 44" if "\<bar>j\<bar> < 10 ^ 15" for j :: int
  proof -
    from that have "(of_int \<bar>j\<bar> :: rat) < of_int (10 ^ 15)"
      by (simp only: of_int_less_iff)
    then have "\<bar>(of_int j :: rat)\<bar> < 10 ^ 15" by simp
    then show ?thesis by simp
  qed
  from roundToDouble_near [OF small [OF k]]
  obtain v where v: "roundToDouble (of_int k / 100) = Finite v"
    and near: "\<bar>v - of_int k / 100\<bar> \<le> 1 / 1024"
    by blast
  from roundToDouble_near [OF small [OF k']]
  obtain v' where v': "roundToDouble (of_int k' / 100) = Finite v'"
    and near': "\<bar>v' - of_int k' / 100\<bar> \<le> 1 / 1024"
    by blast
  from eq v v' have "v = v'" by simp
  with near near' have "\<bar>(of_int k :: rat) - of_int k'\<bar> < 1" by linarith
  then have "\<bar>(of_int (k - k') :: rat)\<bar> < of_int 1" by simp
  then have "\<bar>k - k'\<bar> < 1"
    by (simp only: of_int_abs [symmetric] of_int_less_iff)
  then show ?thesis by simp
qed

lemma hundredthsToString_whole: "hundredthsToString (100 * n) = intToString n"
proof -
  have "nat \<bar>100 * n\<bar> = 100 * nat \<bar>n\<bar>"
    by (simp add: abs_mult nat_mult_distrib)
  moreover have "nat \<bar>n\<bar> = (if n < 0 then nat (- n) else nat n)"
    by simp
  ultimately show ?thesis
    by (simp add: hundredthsToString_def intToString_def Let_def)
qed

lemma numberToString_integer:
  assumes "\<bar>n\<bar> < 10 ^ 13"
  shows "numberToString env (Finite (of_int n)) = intToString n"
proof -
  from assms have "\<bar>n\<bar> < 2 ^ 53" by simp
  then have "roundToDouble (of_int n) = Finite (of_int n)"
    by (rule roundToDouble_of_int)
  moreover have "(of_int (100 * n) / 100 :: rat) = of_int n" by simp
  moreover from assms have "\<bar>100 * n\<bar> < 10 ^ 15" by simp
  ultimately have "numberToString env (Finite (of_int n)) = hundredthsToString (100 * n)"
    using numberToString_hundredths [of "100 * n" env] by simp
  then show ?thesis by (simp add: hundredthsToString_whole)
qed

lemma digitOf_digitChar: "d < 10 \<Longrightarrow> digitOf (digitChar d) = d"
proof -
  assume "d < 10"
  then have "d \<in> {0, 1, 2, 3, 4, 5, 6, 7, 8, 9}" by auto
  then show ?thesis
    by (auto simp: digitOf_def digitChar_def)
qed

lemma digitChar_plain:
  "d < 10 \<Longrightarrow> digitChar d \<noteq> CHR ''.'' \<and> digitChar d \<noteq> CHR ''-''"
proof -
  assume "d < 10"
  then have "d \<in> {0, 1, 2, 3, 4, 5, 6, 7, 8, 9}" by auto
  then show ?thesis
    by (auto simp: digitChar_def)
qed

lemma natOfString_snoc: "natOfString (cs @ [c]) = 10 * natOfString cs + digitOf c"
  by (simp add: natOfString_def)

lemma natOfString_natToString: "natOfString (natToString n) = n"
proof (induction n rule: natToString.induct)
  case (1 n)
  show ?case
  proof (cases "n < 10")
    case True
    then show ?thesis
      by (simp add: natToString_small natOfString_def digitOf_digitChar)
  next
    case False
    with "1" have "natOfString (natToString (n div 10)) = n div 10" by simp
    with False show ?thesis
      by (simp add: natToString_large natOfString_snoc digitOf_digitChar)
  qed
qed

lemma natToString_plain:
  "c \<in> set (natToString n) \<Longrightarrow> c \<noteq> CHR ''.'' \<and> c \<noteq> CHR ''-''"
proof (induction n arbitrary: c rule: natToString.induct)
  case (1 n)
  show ?case
  proof (cases "n < 10")
    case True
    with "1.prems" show ?thesis
      using digitChar_plain [of n] by (simp add: natToString_small)
  next
    case False
    with "1.prems" have "c \<in> set (natToString (n div 10)) \<or> c = digitChar (n mod 10)"
      by (auto simp: natToString_large)
    with "1.IH" False show ?thesis
      using digitChar_plain [of "n mod 10"] by auto
  qed
qed

lemma natToString_nonempty: "natToString n \<noteq> []"
  by (cases "n < 10") (simp_all add: natToString_small natToString_large)

lemma takeWhile_natToString:
  "takeWhile (\<lambda>c. c \<noteq> CHR ''.'') (natToString n @ CHR ''.'' # rest) = natToString n"
  by (rule takeWhile_tail [THEN trans, OF _ takeWhile_eq_all_conv [THEN iffD2]])
     (auto dest: natToString_plain)

lemma takeWhile_natToString_all:
  "takeWhile (\<lambda>c. c \<noteq> CHR ''.'') (natToString n) = natToString n"
  by (rule takeWhile_eq_all_conv [THEN iffD2]) (auto dest: natToString_plain)

lemma dropWhile_natToString_all:
  "dropWhile (\<lambda>c. c \<noteq> CHR ''.'') (natToString n) = []"
  by (rule dropWhile_eq_Nil_conv [THEN iffD2]) (auto dest: natToString_plain)

lemma dropWhile_natToString:
  "dropWhile (\<lambda>c. c \<noteq> CHR ''.'') (natToString n @ CHR ''.'' # rest) = CHR ''.'' # rest"
  by (subst dropWhile_append2) (auto dest: natToString_plain)

lemma unsignedValue_whole: "unsignedValue (natToString w) = of_nat w"
  by (simp add: unsignedValue_def takeWhile_natToString_all dropWhile_natToString_all
      natOfString_natToString) (simp add: natOfString_def)

lemma unsignedValue_point:
  "unsignedValue (natToString w @ CHR ''.'' # ds)
     = of_nat w + of_nat (natOfString ds) / 10 ^ length ds"
  by (simp add: unsignedValue_def takeWhile_natToString dropWhile_natToString
      natOfString_natToString)

lemma unsignedValue_hundredths:
  assumes "cents < 100"
  shows "unsignedValue
           (natToString w @
            (if cents = 0 then ''''
             else ''.'' @ [digitChar (cents div 10)] @
                  (if cents mod 10 = 0 then '''' else [digitChar (cents mod 10)])))
         = of_nat w + of_nat cents / 100"
proof -
  from assms have tens: "cents div 10 < 10" by simp
  have units: "cents mod 10 < 10" by simp
  have split: "cents = 10 * (cents div 10) + cents mod 10" by simp
  show ?thesis
  proof (cases "cents = 0")
    case True
    then show ?thesis by (simp add: unsignedValue_whole)
  next
    case False
    show ?thesis
    proof (cases "cents mod 10 = 0")
      case True
      define t where "t = cents div 10"
      from True split have "cents = 10 * t" by (simp add: t_def)
      then have "(of_nat cents :: rat) = 10 * of_nat t" by simp
      then have "(of_nat cents :: rat) / 100 = of_nat (cents div 10) / 10"
        by (simp add: t_def)
      with False True show ?thesis
        by (simp add: unsignedValue_point natOfString_def digitOf_digitChar [OF tens])
    next
      case nz: False
      have "natOfString [digitChar (cents div 10), digitChar (cents mod 10)] = cents"
        using split
        by (simp add: natOfString_def digitOf_digitChar [OF tens] digitOf_digitChar [OF units])
      with False nz show ?thesis
        using unsignedValue_point [of w "[digitChar (cents div 10), digitChar (cents mod 10)]"]
        by simp
    qed
  qed
qed

text \<open>Reading the printed hundredths back gives their value.\<close>

lemma decimalValue_hundredthsToString:
  "decimalValue (hundredthsToString k) = of_int k / 100"
proof -
  define a where "a = nat \<bar>k\<bar>"
  define body where "body = natToString (a div 100) @
            (if a mod 100 = 0 then ''''
             else ''.'' @ [digitChar (a mod 100 div 10)] @
                  (if a mod 100 mod 10 = 0 then '''' else [digitChar (a mod 100 mod 10)]))"
  have val: "unsignedValue body = of_nat (a div 100) + of_nat (a mod 100) / 100"
    unfolding body_def by (rule unsignedValue_hundredths) simp
  define d m where "d = a div 100" and "m = a mod 100"
  have "a = 100 * d + m" by (simp add: d_def m_def)
  then have "(of_nat a :: rat) = 100 * of_nat d + of_nat m" by simp
  then have "(of_nat d :: rat) + of_nat m / 100 = of_nat a / 100"
    by (simp add: add_divide_distrib)
  with val have total: "unsignedValue body = of_nat a / 100"
    by (simp add: d_def m_def)
  have str: "hundredthsToString k = (if k < 0 then ''-'' else '''') @ body"
    by (simp add: hundredthsToString_def Let_def a_def body_def)
  show ?thesis
  proof (cases "k < 0")
    case True
    then have "(of_nat a :: rat) = - of_int k"
      by (simp add: a_def)
    with True total show ?thesis
      by (simp add: str decimalValue_def)
  next
    case False
    then have ak: "(of_nat a :: rat) = of_int k"
      by (simp add: a_def)
    obtain c cs where body_cons: "body = c # cs" and "c \<in> set (natToString (a div 100))"
    proof -
      obtain c ds where nts: "natToString (a div 100) = c # ds"
        using natToString_nonempty [of "a div 100"] by (cases "natToString (a div 100)") auto
      then have "body = c # (ds @ drop (length (natToString (a div 100))) body)"
        by (simp add: body_def)
      moreover from nts have "c \<in> set (natToString (a div 100))" by simp
      ultimately show ?thesis using that by blast
    qed
    then have "c \<noteq> CHR ''-''" by (auto dest: natToString_plain)
    with False total ak body_cons show ?thesis
      by (simp add: str decimalValue_def)
  qed
qed

lemma decimalValue_intToString: "decimalValue (intToString n) = of_int n"
  using decimalValue_hundredthsToString [of "100 * n"]
  by (simp add: hundredthsToString_whole)

subsection \<open>The structure of an invocation\<close>

lemma render_decide:
  "render env r g auto force t1 t2 =
     (case decide r g force of
        Skip \<Rightarrow> \<lparr>self_after = r, flag_after = True,
                 trace = (if auto then [RequestAnimationFrame] else []), thrown = None\<rparr>
      | Settle \<Rightarrow> compose env r True auto True t1 t2
      | Active \<Rightarrow> compose env r False auto False t1 t2)"
  by (simp add: render_def decide_def)

lemma flag_after_compose [simp]: "flag_after (compose env r fl auto fs t1 t2) = fl"
  by (simp add: compose_def Let_def split: option.splits)

lemma trace_compose:
  "trace (compose env r fl auto fs t1 t2) =
     schedule r auto @ fst (layers env r fs) @
     (case snd (layers env r fs) of
        Some e \<Rightarrow> []
      | None \<Rightarrow> fst (overlay env r (fpsOf t1 (frameTimeStart r))))"
  by (simp add: compose_def Let_def split: option.splits)

lemma thrown_compose:
  "thrown (compose env r fl auto fs t1 t2) =
     (case snd (layers env r fs) of
        Some e \<Rightarrow> Some e
      | None \<Rightarrow> snd (overlay env r (fpsOf t1 (frameTimeStart r))))"
  by (simp add: compose_def Let_def split: option.splits)

lemma self_after_compose:
  "self_after (compose env r fl auto fs t1 t2) =
     (case snd (layers env r fs) of
        Some e \<Rightarrow> r
      | None \<Rightarrow> r\<lparr>frameTimeStart := t2\<rparr>)"
  by (simp add: compose_def Let_def split: option.splits)

lemma layers_no_raf: "RequestAnimationFrame \<notin> set (fst (layers env r fs))"
  by (auto simp: layers_def waveformLayer_def noteLayer_def andThen_def
      split: option.splits sum.splits if_splits)

lemma overlay_no_raf: "RequestAnimationFrame \<notin> set (fst (overlay env r fps))"
  by (auto simp: overlay_def hud_def tempoHud_def holdPedal_def hook_def andThen_def
      split: option.splits if_splits)

lemma layers_thrown_nonempty:
  "snd (layers env r fs) = Some e \<Longrightarrow> fst (layers env r fs) \<noteq> []"
  by (auto simp: layers_def waveformLayer_def noteLayer_def andThen_def
      split: option.splits sum.splits if_splits)

lemma overlay_nonempty: "fst (overlay env r fps) \<noteq> []"
  by (auto simp: overlay_def hud_def andThen_def split: option.splits)

lemma drawOps_append: "drawOps (xs @ ys) = drawOps xs @ drawOps ys"
  by (simp add: drawOps_def)

lemma drawOps_no_raf: "RequestAnimationFrame \<notin> set xs \<Longrightarrow> drawOps xs = xs"
  by (induction xs) (auto simp: drawOps_def)

text \<open>Whatever happens after the idle decision, something other than a scheduling request
  is done: the overlay is begun, or a layer collaborator was called and threw.\<close>

lemma drew_compose: "drew (compose env r fl auto fs t1 t2)"
proof (cases "snd (layers env r fs)")
  case None
  then show ?thesis
    using overlay_nonempty [of env r "fpsOf t1 (frameTimeStart r)"]
    by (simp add: drew_def trace_compose drawOps_append
        drawOps_no_raf [OF overlay_no_raf])
next
  case (Some e)
  then show ?thesis
    using layers_thrown_nonempty [of env r fs e]
    by (simp add: drew_def trace_compose drawOps_append
        drawOps_no_raf [OF layers_no_raf])
qed

lemma drew_skip:
  "\<not> drew \<lparr>self_after = r, flag_after = fl, trace = [RequestAnimationFrame], thrown = e\<rparr>"
  "\<not> drew \<lparr>self_after = r, flag_after = fl, trace = [], thrown = e\<rparr>"
  by (simp_all add: drew_def drawOps_def)

text \<open>A frame is drawn exactly when the early return of line 29 is not taken.\<close>

lemma drew_render: "drew (render env r g auto force t1 t2) \<longleftrightarrow> decide r g force \<noteq> Skip"
  by (simp add: render_decide drew_compose drew_skip split: decision.splits)

lemma flag_after_render:
  "flag_after (render env r g auto force t1 t2) \<longleftrightarrow> \<not> renderBool r \<or> nothingToDo r force"
  by (simp add: render_def)

lemma render_settle:
  "\<not> renderBool r \<or> nothingToDo r force \<Longrightarrow> \<not> g \<Longrightarrow>
   render env r g auto force t1 t2 = compose env r True auto True t1 t2"
  by (simp add: render_def)

lemma render_active:
  "renderBool r \<Longrightarrow> \<not> nothingToDo r force \<Longrightarrow>
   render env r g auto force t1 t2 = compose env r False auto False t1 t2"
  by (simp add: render_def)

text \<open>A run of invocations that all take the idle branch draws once, on its first
  invocation, unless the flag was already set.\<close>

lemma idle_run_draws_once:
  "list_all idleBranch cs \<Longrightarrow>
   length (filter drew (renderCalls env g cs)) = (if g \<or> cs = [] then 0 else 1)"
proof (induction cs arbitrary: g)
  case Nil
  then show ?case by simp
next
  case (Cons c cs)
  let ?res = "render env (self c) g (autoArg c) (forceArg c) (clock1 c) (clock2 c)"
  from Cons.prems have rest: "list_all idleBranch cs" and "idleBranch c"
    by simp_all
  then have idle: "\<not> renderBool (self c) \<or> nothingToDo (self c) (forceArg c)"
    by (simp add: idleBranch_def)
  from idle have fl: "flag_after ?res" by (simp add: flag_after_render)
  from idle have dr: "drew ?res \<longleftrightarrow> \<not> g" by (auto simp add: drew_render decide_def)
  from Cons.IH [OF rest, of True] have "length (filter drew (renderCalls env True cs)) = 0"
    by simp
  with fl dr show ?case by (simp add: Let_def)
qed

subsection \<open>The trace of a drawn frame\<close>

lemma render_drawn:
  "decide r g force \<noteq> Skip \<Longrightarrow>
   render env r g auto force t1 t2 =
     compose env r (decide r g force = Settle) auto (decide r g force = Settle) t1 t2"
  by (auto simp: render_def decide_def split: if_splits)

lemma trace_render_drawn:
  "decide r g force \<noteq> Skip \<Longrightarrow>
   trace (render env r g auto force t1 t2) =
     schedule r auto @ fst (layers env r (decide r g force = Settle)) @
     (case snd (layers env r (decide r g force = Settle)) of
        Some e \<Rightarrow> []
      | None \<Rightarrow> fst (overlay env r (fpsOf t1 (frameTimeStart r))))"
  by (simp add: render_drawn trace_compose)

lemma trace_render_skipped:
  "decide r g force = Skip \<Longrightarrow>
   trace (render env r g auto force t1 t2) = (if auto then [RequestAnimationFrame] else [])"
  by (simp add: render_decide)

lemma schedule_no_layers:
  "filter isDrawNotes (schedule r auto) = []"
  "filter isRenderWaveforms (schedule r auto) = []"
  "filter isComputeNotePositions (schedule r auto) = []"
  "filter isFillText (schedule r auto) = []"
  by (simp_all add: schedule_def)

lemma overlay_no_layers:
  "filter isDrawNotes (fst (overlay env r fps)) = []"
  "filter isRenderWaveforms (fst (overlay env r fps)) = []"
  "filter isComputeNotePositions (fst (overlay env r fps)) = []"
  by (simp_all add: overlay_def hud_def tempoHud_def holdPedal_def hook_def andThen_def
      split: option.splits)

lemma layers_high_performance:
  assumes "highPerformanceMode (synth r)"
  shows "filter isDrawNotes (fst (layers env r fs)) = []"
    and "filter isRenderWaveforms (fst (layers env r fs)) = []"
    and "renderNotes r \<Longrightarrow> noteTimes r \<noteq> None \<Longrightarrow>
         ComputeNotePositions True \<in> set (fst (layers env r fs))"
  using assms
  by (auto simp: layers_def waveformLayer_def noteLayer_def andThen_def
      split: option.splits sum.splits)

lemma layers_waveforms_only_if:
  "filter isRenderWaveforms (fst (layers env r fs)) \<noteq> [] \<Longrightarrow>
   renderAnalysers r \<and> \<not> highPerformanceMode (synth r)"
  by (auto simp: layers_def waveformLayer_def noteLayer_def andThen_def
      split: option.splits sum.splits if_splits)

lemma layers_waveforms_if:
  "renderAnalysers r \<Longrightarrow> \<not> highPerformanceMode (synth r) \<Longrightarrow>
   RenderWaveforms fs \<in> set (fst (layers env r fs))"
  by (auto simp: layers_def waveformLayer_def noteLayer_def andThen_def
      split: option.splits sum.splits if_splits)

lemma self_after_render_drawn:
  "decide r g force \<noteq> Skip \<Longrightarrow>
   self_after (render env r g auto force t1 t2) =
     (case snd (layers env r (decide r g force = Settle)) of
        Some e \<Rightarrow> r
      | None \<Rightarrow> r\<lparr>frameTimeStart := t2\<rparr>)"
  by (simp add: render_drawn self_after_compose)

lemma thrown_render_drawn:
  "decide r g force \<noteq> Skip \<Longrightarrow>
   thrown (render env r g auto force t1 t2) =
     (case snd (layers env r (decide r g force = Settle)) of
        Some e \<Rightarrow> Some e
      | None \<Rightarrow> snd (overlay env r (fpsOf t1 (frameTimeStart r))))"
  by (simp add: render_drawn thrown_compose)

lemma overlay_fps:
  "FillText (numberToString env (mathRound fps) @ '' FPS'')
     (of_nat (width (canvas r))) (of_nat (FONT_SIZE env * 2 + 5))
   \<in> set (fst (overlay env r fps))"
  by (simp add: overlay_def hud_def andThen_def)


lemma overlay_absent_seq:
  assumes "noteTimes r \<noteq> None" and "seq r = None"
  shows "snd (overlay env r fps) = Some TypeError"
    and "SetTextAlign ''center'' \<notin> set (fst (overlay env r fps))"
    and "OnRender \<notin> set (fst (overlay env r fps))"
    and "last (fst (overlay env r fps)) = SetTextAlign ''start''"
  using assms by (simp_all add: overlay_def hud_def tempoHud_def andThen_def)

lemma overlay_absent_noteTimes:
  assumes "noteTimes r = None"
  shows "snd (overlay env r fps) = (case onRender r of None \<Rightarrow> None | Some res \<Rightarrow> res)"
    and "showHoldPedal r \<Longrightarrow>
         FillText (holdPedalIsDownText r)
           (of_nat (width (canvas r)) / 2) (of_nat (height (canvas r)) / 4)
         \<in> set (fst (overlay env r fps))"
    and "onRender r \<noteq> None \<Longrightarrow> OnRender \<in> set (fst (overlay env r fps))"
  using assms
  by (auto simp add: overlay_def hud_def tempoHud_def holdPedal_def hook_def andThen_def
      split: option.splits)


text \<open>A difference of exactly 100 ms gives a rate of exactly 10: neither the subtraction
  nor the division rounds.\<close>

lemma fpsOf_100:
  "roundToDouble t1 = Finite a \<Longrightarrow> roundToDouble lastStart = Finite b \<Longrightarrow> a - b = 100 \<Longrightarrow>
   fpsOf t1 lastStart = Finite 10"
  by (simp add: fpsOf_def double_eval)

lemma fpsOf_exact:
  "roundToDouble t1 = Finite a \<Longrightarrow> roundToDouble lastStart = Finite b \<Longrightarrow> a \<noteq> b \<Longrightarrow>
   roundToDouble (a - b) = Finite (a - b) \<Longrightarrow>
   roundToDouble (1000 / (a - b)) = Finite (1000 / (a - b)) \<Longrightarrow>
   fpsOf t1 lastStart = Finite (1000 / (a - b))"
  by (simp add: fpsOf_def)


subsection \<open>Evaluating the function on the concrete inputs\<close>

lemmas example_eval =
  exampleImports_def idleRenderer_def playingRenderer_def exampleSequencer_def
  disabledRenderer_def denseRenderer_def orphanRenderer_def throwingRenderer_def
  idleCall_def playingCall_def disabledCall_def forcedDisabledCall_def

lemmas render_eval =
  render_def nothingToDo_def compose_def layers_def waveformLayer_def noteLayer_def
  overlay_def hud_def tempoHud_def holdPedal_def hook_def schedule_def andThen_def
  drew_def drawOps_def decide_def idleBranch_def Let_def

lemmas text_eval = fpsOf_def tempoLabel_def tempoProduct_def toString_eval

section \<open>The claims\<close>

text \<open>
  C1, as amended. On an invocation with nothing to do and the flag clear, the part of the
  function after the idle decision runs once, with \<^verbatim>\<open>forceStraight\<close> set (the
  settle frame), and the flag is set. On an invocation with nothing to do and the flag
  set, nothing is drawn and the flag stays set. On an invocation without \<open>force\<close> where
  there is something to do and rendering is switched on, the frame is drawn in full,
  whatever the flag was, and the flag is left clear. In a run of invocations that all have
  nothing to do, exactly one frame is drawn when the flag starts clear (none when it starts
  set): at most one settle frame per idle period.

  As stated, without the condition that rendering is switched on, the claim fails: the
  counterexample is two idle invocations followed by one with a voice sounding and
  rendering switched off, which draws nothing and leaves the flag set.
\<close>

theorem settle_once_per_idle_period:
  "(nothingToDo r force \<and> \<not> g \<longrightarrow>
      render env r g auto force t1 t2 = compose env r True auto True t1 t2
      \<and> drew (render env r g auto force t1 t2)
      \<and> flag_after (render env r g auto force t1 t2))
   \<and> (nothingToDo r force \<and> g \<longrightarrow>
      \<not> drew (render env r g auto force t1 t2)
      \<and> flag_after (render env r g auto force t1 t2))
   \<and> (renderBool r \<and> \<not> nothingToDo r False \<longrightarrow>
      render env r g auto False t1 t2 = compose env r False auto False t1 t2
      \<and> drew (render env r g auto False t1 t2)
      \<and> \<not> flag_after (render env r g auto False t1 t2))
   \<and> (list_all (\<lambda>c. nothingToDo (self c) (forceArg c)) cs \<longrightarrow>
      length (filter drew (renderCalls env g cs)) = (if g \<or> cs = [] then 0 else 1))"
proof -
  have settle: "nothingToDo r force \<and> \<not> g \<longrightarrow>
      render env r g auto force t1 t2 = compose env r True auto True t1 t2
      \<and> drew (render env r g auto force t1 t2)
      \<and> flag_after (render env r g auto force t1 t2)"
    by (simp add: render_settle drew_compose)
  have skip: "nothingToDo r force \<and> g \<longrightarrow>
      \<not> drew (render env r g auto force t1 t2)
      \<and> flag_after (render env r g auto force t1 t2)"
    by (simp add: drew_render decide_def flag_after_render)
  have active: "renderBool r \<and> \<not> nothingToDo r False \<longrightarrow>
      render env r g auto False t1 t2 = compose env r False auto False t1 t2
      \<and> drew (render env r g auto False t1 t2)
      \<and> \<not> flag_after (render env r g auto False t1 t2)"
    by (simp add: render_active drew_compose)
  have run: "list_all (\<lambda>c. nothingToDo (self c) (forceArg c)) cs \<longrightarrow>
      length (filter drew (renderCalls env g cs)) = (if g \<or> cs = [] then 0 else 1)"
  proof
    assume "list_all (\<lambda>c. nothingToDo (self c) (forceArg c)) cs"
    then have "list_all idleBranch cs"
      by (simp add: list_all_iff idleBranch_def)
    then show "length (filter drew (renderCalls env g cs)) = (if g \<or> cs = [] then 0 else 1)"
      by (rule idle_run_draws_once)
  qed
  from settle skip active run show ?thesis by blast
qed

theorem settle_once_per_idle_period_witness:
  "nothingToDo idleRenderer False
   \<and> renderBool playingRenderer \<and> \<not> nothingToDo playingRenderer False
   \<and> list_all (\<lambda>c. nothingToDo (self c) (forceArg c)) [idleCall, idleCall, idleCall]
   \<and> map drew (renderCalls exampleImports False [idleCall, idleCall, playingCall])
       = [True, False, True]
   \<and> map flag_after (renderCalls exampleImports False [idleCall, idleCall, playingCall])
       = [True, True, False]
   \<and> length (filter drew (renderCalls exampleImports False [idleCall, idleCall, idleCall])) = 1"
  using settle_once_per_idle_period
    [of idleRenderer False False exampleImports True 16 16 "[idleCall, idleCall, idleCall]"]
    settle_once_per_idle_period
    [of idleRenderer False True exampleImports True 16 16 "[]"]
    settle_once_per_idle_period
    [of playingRenderer False True exampleImports True 16 16 "[]"]
  by (simp add: example_eval render_eval)

theorem activity_without_renderBool_counterexample:
  "0 < voicesAmount (synth (self disabledCall))
   \<and> \<not> nothingToDo (self disabledCall) (forceArg disabledCall)
   \<and> map drew (renderCalls exampleImports False [idleCall, idleCall, disabledCall])
       = [True, False, False]
   \<and> map flag_after (renderCalls exampleImports False [idleCall, idleCall, disabledCall])
       = [True, True, True]"
  by (simp add: example_eval render_eval)

text \<open>
  C2. For every invocation, the frame is classified "nothing to do" if and only if the
  playback source is absent or its paused flag is true, the audible-voice count is zero,
  the display mode is the waveform mode, and \<open>force\<close> is false. The classification shows
  in the flag the invocation leaves behind: while rendering is switched on, the flag is
  set exactly when the four conditions held.
\<close>

theorem nothingToDo_iff:
  "(nothingToDo r force \<longleftrightarrow>
      (seq r = None \<or> (\<exists>s. seq r = Some s \<and> paused s))
      \<and> voicesAmount (synth r) = 0
      \<and> rendererMode r = waveformsMode
      \<and> \<not> force)
   \<and> (renderBool r \<longrightarrow>
        (flag_after (render env r g auto force t1 t2) \<longleftrightarrow> nothingToDo r force))"
  by (auto simp: nothingToDo_def render_def split: option.splits)

theorem nothingToDo_iff_witness:
  "renderBool idleRenderer
   \<and> nothingToDo idleRenderer False
   \<and> flag_after (render exampleImports idleRenderer False True False 16 16)
   \<and> \<not> nothingToDo idleRenderer True
   \<and> \<not> nothingToDo playingRenderer False
   \<and> \<not> flag_after (render exampleImports playingRenderer True True False 16 16)"
  using nothingToDo_iff [of idleRenderer False exampleImports False True 16 16]
    nothingToDo_iff [of idleRenderer True exampleImports False True 16 16]
    nothingToDo_iff [of playingRenderer False exampleImports True True 16 16]
  by (simp add: example_eval)

text \<open>
  C3. When there is nothing to do and the flag is already set, the invocation touches
  neither the drawing surface nor a collaborator (no clear, no draw call), leaves the
  renderer and with it \<^verbatim>\<open>frameTimeStart\<close> as they were, and keeps the flag set. With
  \<open>auto\<close> it asks the scheduler for the next frame exactly once; without \<open>auto\<close> it does
  nothing at all.
\<close>

theorem idle_frame_skipped:
  "nothingToDo r force \<and> g \<longrightarrow>
     render env r g auto force t1 t2 =
       \<lparr>self_after = r, flag_after = True,
        trace = (if auto then [RequestAnimationFrame] else []), thrown = None\<rparr>
     \<and> drawOps (trace (render env r g auto force t1 t2)) = []
     \<and> frameTimeStart (self_after (render env r g auto force t1 t2)) = frameTimeStart r
     \<and> count_list (trace (render env r g auto force t1 t2)) RequestAnimationFrame =
          (if auto then 1 else 0)"
  by (simp add: render_def drawOps_def)

theorem idle_frame_skipped_witness:
  "nothingToDo idleRenderer False
   \<and> trace (render exampleImports idleRenderer True True False 16 16) = [RequestAnimationFrame]
   \<and> trace (render exampleImports idleRenderer True False False 16 16) = []
   \<and> frameTimeStart (self_after (render exampleImports idleRenderer True True False 16 16)) = 0"
  using idle_frame_skipped [of idleRenderer False True exampleImports True 16 16]
    idle_frame_skipped [of idleRenderer False True exampleImports False 16 16]
  by (simp add: example_eval nothingToDo_def)

text \<open>
  C4, as amended. An invocation with \<open>force\<close> set, while rendering is switched on, draws
  the frame in full whatever the playback source, the voice count and the display mode
  are. The flag it leaves behind does not depend on any of the three: it is clear when
  rendering is switched on and set when it is switched off.

  As stated, for every invocation with \<open>force\<close> set, the claim fails: with rendering
  switched off and the flag set, a forced invocation only asks for the next frame.
\<close>

theorem forced_frame:
  "(renderBool r \<longrightarrow>
      render env r g auto True t1 t2 = compose env r False auto False t1 t2
      \<and> drew (render env r g auto True t1 t2))
   \<and> (flag_after (render env r g auto True t1 t2) \<longleftrightarrow> \<not> renderBool r)"
  by (simp add: render_def nothingToDo_def drew_compose)

theorem forced_frame_witness:
  "renderBool idleRenderer
   \<and> drew (render exampleImports idleRenderer True True True 16 16)
   \<and> \<not> flag_after (render exampleImports idleRenderer True True True 16 16)"
  using forced_frame [of idleRenderer exampleImports True True 16 16]
  by (simp add: example_eval drew_compose)

theorem forced_frame_counterexample:
  "forceArg forcedDisabledCall
   \<and> \<not> drew (render exampleImports (self forcedDisabledCall) True
               (autoArg forcedDisabledCall) (forceArg forcedDisabledCall) 16 16)
   \<and> trace (render exampleImports (self forcedDisabledCall) True
               (autoArg forcedDisabledCall) (forceArg forcedDisabledCall) 16 16)
       = [RequestAnimationFrame]"
  by (simp add: example_eval render_eval)

text \<open>
  C5, as amended. On a drawn frame with note rendering enabled, note times present and
  high-performance mode on, \<^verbatim>\<open>computeNotePositions\<close> is called with the flag, and
  neither \<^verbatim>\<open>drawNotes\<close> nor \<^verbatim>\<open>renderWaveforms\<close> is. On any invocation,
  \<^verbatim>\<open>renderWaveforms\<close> is called only when waveform rendering is enabled and
  high-performance mode is off, and on a drawn frame it then is.

  As stated, without the condition that note rendering is enabled, the claim fails: with
  \<^verbatim>\<open>renderNotes\<close> false, \<^verbatim>\<open>computeNotePositions\<close> is not called.
\<close>

theorem high_performance_frame:
  "(drew (render env r g auto force t1 t2) \<and> renderNotes r \<and> noteTimes r \<noteq> None
      \<and> highPerformanceMode (synth r) \<longrightarrow>
        ComputeNotePositions True \<in> set (trace (render env r g auto force t1 t2))
        \<and> filter isDrawNotes (trace (render env r g auto force t1 t2)) = []
        \<and> filter isRenderWaveforms (trace (render env r g auto force t1 t2)) = [])
   \<and> (filter isRenderWaveforms (trace (render env r g auto force t1 t2)) \<noteq> [] \<longrightarrow>
        renderAnalysers r \<and> \<not> highPerformanceMode (synth r))
   \<and> (drew (render env r g auto force t1 t2) \<and> renderAnalysers r
      \<and> \<not> highPerformanceMode (synth r) \<longrightarrow>
        RenderWaveforms (decide r g force = Settle)
          \<in> set (trace (render env r g auto force t1 t2)))"
proof (cases "decide r g force = Skip")
  case True
  then show ?thesis
    by (simp add: drew_render trace_render_skipped)
next
  case False
  have hp: "renderNotes r \<and> noteTimes r \<noteq> None \<and> highPerformanceMode (synth r) \<longrightarrow>
        ComputeNotePositions True \<in> set (trace (render env r g auto force t1 t2))
        \<and> filter isDrawNotes (trace (render env r g auto force t1 t2)) = []
        \<and> filter isRenderWaveforms (trace (render env r g auto force t1 t2)) = []"
    using False
    by (simp add: trace_render_drawn schedule_no_layers overlay_no_layers
        layers_high_performance split: option.splits)
  have only_if: "filter isRenderWaveforms (trace (render env r g auto force t1 t2)) \<noteq> [] \<longrightarrow>
        renderAnalysers r \<and> \<not> highPerformanceMode (synth r)"
    using False layers_waveforms_only_if [of env r "decide r g force = Settle"]
    by (simp add: trace_render_drawn schedule_no_layers overlay_no_layers
        split: option.splits)
  have "if": "renderAnalysers r \<and> \<not> highPerformanceMode (synth r) \<longrightarrow>
        RenderWaveforms (decide r g force = Settle)
          \<in> set (trace (render env r g auto force t1 t2))"
    using False
    by (simp add: trace_render_drawn layers_waveforms_if)
  from hp only_if "if" show ?thesis by blast
qed

theorem high_performance_frame_witness:
  "renderNotes denseRenderer \<and> noteTimes denseRenderer \<noteq> None
   \<and> highPerformanceMode (synth denseRenderer)
   \<and> drew (render exampleImports denseRenderer False True False 16 16)
   \<and> filter (\<lambda>e. isComputeNotePositions e \<or> isDrawNotes e \<or> isRenderWaveforms e)
        (trace (render exampleImports denseRenderer False True False 16 16))
       = [ComputeNotePositions True]
   \<and> renderAnalysers playingRenderer \<and> \<not> highPerformanceMode (synth playingRenderer)
   \<and> filter (\<lambda>e. isComputeNotePositions e \<or> isDrawNotes e \<or> isRenderWaveforms e)
        (trace (render exampleImports playingRenderer False True False 16 16))
       = [RenderWaveforms False, ComputeNotePositions False, DrawNotes [] False]"
  using high_performance_frame [of exampleImports denseRenderer False True False 16 16]
    high_performance_frame [of exampleImports playingRenderer False True False 16 16]
  by (simp add: example_eval render_eval toString_eval)

theorem notes_disabled_counterexample:
  "noteTimes (denseRenderer\<lparr>renderNotes := False\<rparr>) \<noteq> None
   \<and> highPerformanceMode (synth (denseRenderer\<lparr>renderNotes := False\<rparr>))
   \<and> drew (render exampleImports (denseRenderer\<lparr>renderNotes := False\<rparr>) False True False 16 16)
   \<and> filter isComputeNotePositions
        (trace (render exampleImports (denseRenderer\<lparr>renderNotes := False\<rparr>)
           False True False 16 16)) = []"
  by (simp add: example_eval render_eval)

text \<open>
  C6, as amended. A skipped frame leaves the renderer, and so \<^verbatim>\<open>frameTimeStart\<close>,
  unchanged and writes no text. A drawn frame whose layers return computes the rate from
  the first clock reading, as 1000 divided by the difference between that reading and
  \<^verbatim>\<open>frameTimeStart\<close>, both operations in binary64; it writes the rate rounded to
  an integer, as that integer's decimal numeral (which reads back as the integer) when it
  is below \<open>10 ^ 13\<close> in magnitude;
  and it stores the second clock reading in \<^verbatim>\<open>frameTimeStart\<close>. When neither
  operation rounds, the rate is the exact quotient. When the first reading of a drawn frame
  is exactly 100 ms after the reading the previous drawn frame stored, the rate is 10 and
  the text is \<open>10 FPS\<close>.

  As stated, with one \<open>now\<close> for both the rate and the stored time, the claim fails when
  the clock moves between lines 70 and 71: with readings 100 and 101 the rate is computed
  from 100 and 101 is stored, and a frame read at 200 then divides 1000 by 99.
\<close>

theorem fps_on_drawn_frames:
  fixes r r' :: "('n, 't) renderer"
  shows
  "(\<not> drew (render env r g auto force t1 t2) \<longrightarrow>
      self_after (render env r g auto force t1 t2) = r
      \<and> filter isFillText (trace (render env r g auto force t1 t2)) = [])
   \<and> (drew (render env r g auto force t1 t2)
      \<and> snd (layers env r (decide r g force = Settle)) = None \<longrightarrow>
      frameTimeStart (self_after (render env r g auto force t1 t2)) = t2
      \<and> FillText (numberToString env (mathRound (fpsOf t1 (frameTimeStart r))) @ '' FPS'')
           (of_nat (width (canvas r))) (of_nat (FONT_SIZE env * 2 + 5))
         \<in> set (trace (render env r g auto force t1 t2)))
   \<and> fpsOf t1 (frameTimeStart r) =
       jsDiv (Finite 1000) (jsSub (roundToDouble t1) (roundToDouble (frameTimeStart r)))
   \<and> (fpsOf t1 (frameTimeStart r) = Finite f \<and> \<bar>\<lfloor>f + 1 / 2\<rfloor>\<bar> < 10 ^ 13 \<longrightarrow>
      numberToString env (mathRound (fpsOf t1 (frameTimeStart r))) = intToString \<lfloor>f + 1 / 2\<rfloor>)
   \<and> (roundToDouble t1 = Finite a \<and> roundToDouble (frameTimeStart r) = Finite b \<and> a \<noteq> b
      \<and> roundToDouble (a - b) = Finite (a - b)
      \<and> roundToDouble (1000 / (a - b)) = Finite (1000 / (a - b)) \<longrightarrow>
      fpsOf t1 (frameTimeStart r) = Finite (1000 / (a - b)))
   \<and> (drew (render env r g auto force t1 t2)
      \<and> snd (layers env r (decide r g force = Settle)) = None
      \<and> frameTimeStart r' = frameTimeStart (self_after (render env r g auto force t1 t2))
      \<and> roundToDouble t2 = Finite b' \<and> roundToDouble t1' = Finite a' \<and> a' - b' = 100
      \<and> drew (render env r' g' auto' force' t1' t2')
      \<and> snd (layers env r' (decide r' g' force' = Settle)) = None \<longrightarrow>
      fpsOf t1' (frameTimeStart r') = Finite 10
      \<and> FillText ''10 FPS'' (of_nat (width (canvas r'))) (of_nat (FONT_SIZE env * 2 + 5))
         \<in> set (trace (render env r' g' auto' force' t1' t2')))
   \<and> decimalValue (intToString n) = of_int n"
proof -
  have skipped: "\<not> drew (render env r g auto force t1 t2) \<longrightarrow>
      self_after (render env r g auto force t1 t2) = r
      \<and> filter isFillText (trace (render env r g auto force t1 t2)) = []"
    by (cases "decide r g force") (simp_all add: render_decide drew_compose)
  have drawn: "frameTimeStart (self_after (render env r g auto force t1 t2)) = t2
      \<and> FillText (numberToString env (mathRound (fpsOf t1 (frameTimeStart r))) @ '' FPS'')
           (of_nat (width (canvas r))) (of_nat (FONT_SIZE env * 2 + 5))
         \<in> set (trace (render env r g auto force t1 t2))"
    if "drew (render env r g auto force t1 t2)"
      and "snd (layers env r (decide r g force = Settle)) = None"
    for r :: "('n, 't) renderer" and g auto force t1 t2
    using that overlay_fps [of env "fpsOf t1 (frameTimeStart r)" r]
    by (simp add: drew_render self_after_render_drawn trace_render_drawn)
  have formula: "fpsOf t1 (frameTimeStart r) =
       jsDiv (Finite 1000) (jsSub (roundToDouble t1) (roundToDouble (frameTimeStart r)))"
    by (simp add: fpsOf_def)
  have numeral: "numberToString env (mathRound (fpsOf t1 (frameTimeStart r)))
        = intToString \<lfloor>f + 1 / 2\<rfloor>"
    if "fpsOf t1 (frameTimeStart r) = Finite f" and "\<bar>\<lfloor>f + 1 / 2\<rfloor>\<bar> < 10 ^ 13"
    using that numberToString_integer [of "\<lfloor>f + 1 / 2\<rfloor>" env] by simp
  have exact: "fpsOf t1 (frameTimeStart r) = Finite (1000 / (a - b))"
    if "roundToDouble t1 = Finite a" and "roundToDouble (frameTimeStart r) = Finite b"
      and "a \<noteq> b" and "roundToDouble (a - b) = Finite (a - b)"
      and "roundToDouble (1000 / (a - b)) = Finite (1000 / (a - b))"
    using that by (rule fpsOf_exact)
  have two: "fpsOf t1' (frameTimeStart r') = Finite 10
      \<and> FillText ''10 FPS'' (of_nat (width (canvas r'))) (of_nat (FONT_SIZE env * 2 + 5))
         \<in> set (trace (render env r' g' auto' force' t1' t2'))"
    if first: "drew (render env r g auto force t1 t2)"
        "snd (layers env r (decide r g force = Settle)) = None"
      and link: "frameTimeStart r' = frameTimeStart (self_after (render env r g auto force t1 t2))"
      and clock: "roundToDouble t2 = Finite b'" "roundToDouble t1' = Finite a'" "a' - b' = 100"
      and second: "drew (render env r' g' auto' force' t1' t2')"
        "snd (layers env r' (decide r' g' force' = Settle)) = None"
  proof -
    from drawn [OF first] link have "frameTimeStart r' = t2"
      by simp
    with clock have fps: "fpsOf t1' (frameTimeStart r') = Finite 10"
      by (simp add: fpsOf_100)
    have "numberToString env (mathRound (Finite 10)) = ''10''"
      by (simp add: toString_eval)
    with drawn [OF second] fps show ?thesis
      by simp
  qed
  from skipped drawn formula numeral exact two decimalValue_intToString [of n]
  show ?thesis by blast
qed

theorem fps_on_drawn_frames_witness:
  "\<not> drew (render exampleImports idleRenderer True True False 16 16)
   \<and> frameTimeStart (self_after (render exampleImports idleRenderer True True False 16 16)) = 0
   \<and> drew (render exampleImports playingRenderer False True False 50 50)
   \<and> snd (layers exampleImports playingRenderer False) = None
   \<and> roundToDouble 50 = Finite 50 \<and> roundToDouble 150 = Finite 150
   \<and> frameTimeStart (self_after (render exampleImports playingRenderer False True False 50 50))
       = 50
   \<and> FillText ''20 FPS'' 800 37
       \<in> set (trace (render exampleImports playingRenderer False True False 50 50))
   \<and> FillText ''10 FPS'' 800 37
       \<in> set (trace (render exampleImports (playingRenderer\<lparr>frameTimeStart := 50\<rparr>)
                 False True False 150 150))
   \<and> FillText ''313 FPS'' 800 37
       \<in> set (trace (render exampleImports playingRenderer False True False (16 / 5) (16 / 5)))"
proof -
  let ?later = "playingRenderer\<lparr>frameTimeStart := 50\<rparr>"
  note idle = fps_on_drawn_frames
    [of exampleImports idleRenderer True True False 16 16 20 16 0 idleRenderer 16 16 0
        True True False 16]
  note first = fps_on_drawn_frames
    [of exampleImports playingRenderer False True False 50 50 20 50 0
        ?later 50 150 150 False True False 150]
  note dense = fps_on_drawn_frames
    [of exampleImports playingRenderer False True False "16 / 5" "16 / 5" 20 50 0
        ?later 50 150 150 False True False 150]
  have skipped: "\<not> drew (render exampleImports idleRenderer True True False 16 16)"
    by (simp add: example_eval render_eval)
  with idle
  have "self_after (render exampleImports idleRenderer True True False 16 16) = idleRenderer"
    by blast
  then have kept:
    "frameTimeStart (self_after (render exampleImports idleRenderer True True False 16 16)) = 0"
    by (simp add: example_eval)
  have drawn: "drew (render exampleImports playingRenderer False True False 50 50)"
    "drew (render exampleImports ?later False True False 150 150)"
    "drew (render exampleImports playingRenderer False True False (16 / 5) (16 / 5))"
    by (simp_all add: example_eval render_eval)
  have returned:
    "snd (layers exampleImports playingRenderer (decide playingRenderer False False = Settle))
       = None"
    "snd (layers exampleImports ?later (decide ?later False False = Settle)) = None"
    by (simp_all add: example_eval render_eval)
  have quiet: "snd (layers exampleImports playingRenderer False) = None"
    by (simp add: example_eval render_eval)
  have doubles: "roundToDouble 50 = Finite 50" "roundToDouble 150 = Finite 150"
    by (simp_all add: double_eval)
  have place: "width (canvas playingRenderer) = 800" "width (canvas ?later) = 800"
    "FONT_SIZE exampleImports = 16"
    by (simp_all add: example_eval)
  have twenty:
    "numberToString exampleImports (mathRound (fpsOf 50 (frameTimeStart playingRenderer)))
       = ''20''"
    and many:
    "numberToString exampleImports (mathRound (fpsOf (16 / 5) (frameTimeStart playingRenderer)))
       = ''313''"
    by (simp_all add: example_eval text_eval)
  from first drawn(1) returned(1)
  have one: "frameTimeStart (self_after (render exampleImports playingRenderer False True False 50 50))
       = 50
    \<and> FillText
        (numberToString exampleImports (mathRound (fpsOf 50 (frameTimeStart playingRenderer)))
          @ '' FPS'')
        (of_nat (width (canvas playingRenderer))) (of_nat (FONT_SIZE exampleImports * 2 + 5))
       \<in> set (trace (render exampleImports playingRenderer False True False 50 50))"
    by blast
  then have text20: "FillText ''20 FPS'' 800 37
       \<in> set (trace (render exampleImports playingRenderer False True False 50 50))"
    by (simp add: twenty place)
  from one have stored: "frameTimeStart ?later
      = frameTimeStart (self_after (render exampleImports playingRenderer False True False 50 50))"
    by simp
  have apart: "(150::rat) - 50 = 100" by simp
  from first drawn(1,2) returned stored doubles apart
  have "FillText ''10 FPS'' (of_nat (width (canvas ?later)))
        (of_nat (FONT_SIZE exampleImports * 2 + 5))
       \<in> set (trace (render exampleImports ?later False True False 150 150))"
    by blast
  then have text10: "FillText ''10 FPS'' 800 37
       \<in> set (trace (render exampleImports ?later False True False 150 150))"
    by (simp add: place)
  from dense drawn(3) returned(1)
  have "FillText
        (numberToString exampleImports
          (mathRound (fpsOf (16 / 5) (frameTimeStart playingRenderer))) @ '' FPS'')
        (of_nat (width (canvas playingRenderer))) (of_nat (FONT_SIZE exampleImports * 2 + 5))
       \<in> set (trace (render exampleImports playingRenderer False True False (16 / 5) (16 / 5)))"
    by blast
  then have text313: "FillText ''313 FPS'' 800 37
       \<in> set (trace (render exampleImports playingRenderer False True False (16 / 5) (16 / 5)))"
    by (simp add: many place)
  from skipped kept drawn(1) quiet doubles one text20 text10 text313 show ?thesis
    by blast
qed

theorem second_clock_reading_counterexample:
  "FillText ''10 FPS'' 800 37
     \<in> set (trace (render exampleImports playingRenderer False True False 100 101))
   \<and> fpsOf 100 (frameTimeStart playingRenderer) = Finite 10
   \<and> frameTimeStart (self_after (render exampleImports playingRenderer False True False 100 101))
       = 101
   \<and> fpsOf 200
        (frameTimeStart
          (self_after (render exampleImports playingRenderer False True False 100 101)))
       = roundToDouble (1000 / 99)
   \<and> roundToDouble (1000 / 99) = Finite (2843181582935919 / 281474976710656)"
proof -
  have frame: "render exampleImports playingRenderer False True False 100 101
      = compose exampleImports playingRenderer False True False 100 101"
    by (simp add: example_eval render_def nothingToDo_def)
  have quiet: "snd (layers exampleImports playingRenderer False) = None"
    by (simp add: example_eval render_eval)
  have rate: "fpsOf 100 (frameTimeStart playingRenderer) = Finite 10"
    by (simp add: example_eval fpsOf_def double_eval)
  have place: "width (canvas playingRenderer) = 800" "FONT_SIZE exampleImports = 16"
    by (simp_all add: example_eval)
  have shown: "FillText ''10 FPS'' 800 37
     \<in> set (trace (render exampleImports playingRenderer False True False 100 101))"
    using overlay_fps [of exampleImports "fpsOf 100 (frameTimeStart playingRenderer)"
        playingRenderer]
    by (simp add: frame trace_compose quiet rate place toString_eval)
  have stored:
    "frameTimeStart (self_after (render exampleImports playingRenderer False True False 100 101))
       = 101"
    by (simp add: frame self_after_compose quiet)
  have next_rate: "fpsOf 200 101 = roundToDouble (1000 / 99)"
    by (simp add: fpsOf_def double_eval)
  have nearest: "roundToDouble (1000 / 99) = Finite (2843181582935919 / 281474976710656)"
    by (simp add: double_eval)
  from shown rate stored next_rate nearest show ?thesis
    by simp
qed



text \<open>
  C8. The claim is that an absent playback source or absent note times only disables its
  own layer. On a drawn frame whose layers return, absent note times do: the tempo label
  is left out, the hold-pedal label and the hook still run, and the only exception is the
  hook's own. But with note times present and no playback source, line 89 reads
  \<^verbatim>\<open>currentTempo\<close> of \<^verbatim>\<open>undefined\<close>: the invocation ends with a
  \<^verbatim>\<open>TypeError\<close> right after the alignment is set, and neither the hold-pedal label
  nor the hook is reached.
\<close>

theorem absent_sequencer_throws:
  "(drew (render env r g auto force t1 t2)
      \<and> snd (layers env r (decide r g force = Settle)) = None
      \<and> noteTimes r \<noteq> None \<and> seq r = None \<longrightarrow>
      thrown (render env r g auto force t1 t2) = Some TypeError
      \<and> last (trace (render env r g auto force t1 t2)) = SetTextAlign ''start''
      \<and> SetTextAlign ''center'' \<notin> set (trace (render env r g auto force t1 t2))
      \<and> OnRender \<notin> set (trace (render env r g auto force t1 t2)))
   \<and> (drew (render env r g auto force t1 t2)
      \<and> snd (layers env r (decide r g force = Settle)) = None
      \<and> noteTimes r = None \<longrightarrow>
      thrown (render env r g auto force t1 t2)
        = (case onRender r of None \<Rightarrow> None | Some res \<Rightarrow> res)
      \<and> (showHoldPedal r \<longrightarrow>
           FillText (holdPedalIsDownText r)
             (of_nat (width (canvas r)) / 2) (of_nat (height (canvas r)) / 4)
           \<in> set (trace (render env r g auto force t1 t2)))
      \<and> (onRender r \<noteq> None \<longrightarrow> OnRender \<in> set (trace (render env r g auto force t1 t2))))"
proof -
  have no_raf_align: "SetTextAlign ''center'' \<notin> set (schedule r auto)"
    "OnRender \<notin> set (schedule r auto)"
    by (simp_all add: schedule_def)
  have layers_quiet: "SetTextAlign ''center'' \<notin> set (fst (layers env r fs))"
    "OnRender \<notin> set (fst (layers env r fs))" for fs
    by (auto simp: layers_def waveformLayer_def noteLayer_def andThen_def
        split: option.splits sum.splits if_splits)
  have bad: "thrown (render env r g auto force t1 t2) = Some TypeError
      \<and> last (trace (render env r g auto force t1 t2)) = SetTextAlign ''start''
      \<and> SetTextAlign ''center'' \<notin> set (trace (render env r g auto force t1 t2))
      \<and> OnRender \<notin> set (trace (render env r g auto force t1 t2))"
    if "drew (render env r g auto force t1 t2)"
      and "snd (layers env r (decide r g force = Settle)) = None"
      and "noteTimes r \<noteq> None" and "seq r = None"
    using that overlay_nonempty [of env r "fpsOf t1 (frameTimeStart r)"]
    by (simp add: drew_render thrown_render_drawn trace_render_drawn overlay_absent_seq
        no_raf_align layers_quiet)
  have good: "thrown (render env r g auto force t1 t2)
        = (case onRender r of None \<Rightarrow> None | Some res \<Rightarrow> res)
      \<and> (showHoldPedal r \<longrightarrow>
           FillText (holdPedalIsDownText r)
             (of_nat (width (canvas r)) / 2) (of_nat (height (canvas r)) / 4)
           \<in> set (trace (render env r g auto force t1 t2)))
      \<and> (onRender r \<noteq> None \<longrightarrow> OnRender \<in> set (trace (render env r g auto force t1 t2)))"
    if "drew (render env r g auto force t1 t2)"
      and "snd (layers env r (decide r g force = Settle)) = None"
      and "noteTimes r = None"
    using that
    by (simp add: drew_render thrown_render_drawn trace_render_drawn overlay_absent_noteTimes)
  from bad good show ?thesis by blast
qed

theorem absent_sequencer_throws_witness:
  "drew (render exampleImports orphanRenderer False True False 16 16)
   \<and> snd (layers exampleImports orphanRenderer (decide orphanRenderer False False = Settle))
       = None
   \<and> noteTimes orphanRenderer \<noteq> None \<and> seq orphanRenderer = None
   \<and> showHoldPedal orphanRenderer \<and> onRender orphanRenderer = Some None
   \<and> thrown (render exampleImports orphanRenderer False True False 16 16) = Some TypeError
   \<and> FillText ''Hold pedal is down'' 400 150
       \<notin> set (trace (render exampleImports orphanRenderer False True False 16 16))
   \<and> OnRender \<notin> set (trace (render exampleImports orphanRenderer False True False 16 16))
   \<and> thrown (render exampleImports (orphanRenderer\<lparr>noteTimes := None\<rparr>)
        False True False 16 16) = None
   \<and> FillText ''Hold pedal is down'' 400 150
       \<in> set (trace (render exampleImports (orphanRenderer\<lparr>noteTimes := None\<rparr>)
                 False True False 16 16))"
  using absent_sequencer_throws [of exampleImports orphanRenderer False True False 16 16]
    absent_sequencer_throws
      [of exampleImports "orphanRenderer\<lparr>noteTimes := None\<rparr>" False True False 16 16]
  by (simp add: example_eval render_eval toString_eval)

text \<open>
  C9. With rendering switched off the idle branch is taken whatever \<open>force\<close>, the voice
  count and the display mode are: with the flag set nothing is drawn, with the flag clear
  the settle frame is drawn and the flag set. A run of invocations with rendering switched
  off draws at most one frame. The flag is cleared only by an invocation with rendering
  switched on and something to do.
\<close>

theorem render_switched_off:
  "(\<not> renderBool r \<and> g \<longrightarrow>
      \<not> drew (render env r g auto force t1 t2)
      \<and> flag_after (render env r g auto force t1 t2))
   \<and> (\<not> renderBool r \<and> \<not> g \<longrightarrow>
      render env r g auto force t1 t2 = compose env r True auto True t1 t2
      \<and> drew (render env r g auto force t1 t2)
      \<and> flag_after (render env r g auto force t1 t2))
   \<and> (list_all (\<lambda>c. \<not> renderBool (self c)) cs \<longrightarrow>
      length (filter drew (renderCalls env g cs)) = (if g \<or> cs = [] then 0 else 1))
   \<and> (\<not> flag_after (render env r g auto force t1 t2) \<longleftrightarrow>
        renderBool r \<and> \<not> nothingToDo r force)"
proof -
  have skip: "\<not> renderBool r \<and> g \<longrightarrow>
      \<not> drew (render env r g auto force t1 t2)
      \<and> flag_after (render env r g auto force t1 t2)"
    by (simp add: drew_render decide_def flag_after_render)
  have settle: "\<not> renderBool r \<and> \<not> g \<longrightarrow>
      render env r g auto force t1 t2 = compose env r True auto True t1 t2
      \<and> drew (render env r g auto force t1 t2)
      \<and> flag_after (render env r g auto force t1 t2)"
    by (simp add: render_settle drew_compose)
  have run: "list_all (\<lambda>c. \<not> renderBool (self c)) cs \<longrightarrow>
      length (filter drew (renderCalls env g cs)) = (if g \<or> cs = [] then 0 else 1)"
  proof
    assume "list_all (\<lambda>c. \<not> renderBool (self c)) cs"
    then have "list_all idleBranch cs"
      by (simp add: list_all_iff idleBranch_def)
    then show "length (filter drew (renderCalls env g cs)) = (if g \<or> cs = [] then 0 else 1)"
      by (rule idle_run_draws_once)
  qed
  have reset: "\<not> flag_after (render env r g auto force t1 t2) \<longleftrightarrow>
        renderBool r \<and> \<not> nothingToDo r force"
    by (simp add: flag_after_render)
  from skip settle run reset show ?thesis by blast
qed

theorem render_switched_off_witness:
  "\<not> renderBool disabledRenderer
   \<and> 0 < voicesAmount (synth disabledRenderer)
   \<and> list_all (\<lambda>c. \<not> renderBool (self c)) [disabledCall, forcedDisabledCall, disabledCall]
   \<and> map drew (renderCalls exampleImports False [disabledCall, forcedDisabledCall, disabledCall])
       = [True, False, False]
   \<and> \<not> drew (render exampleImports disabledRenderer True True True 16 16)
   \<and> drew (render exampleImports disabledRenderer False True True 16 16)"
  using render_switched_off
    [of disabledRenderer True exampleImports True True 16 16
        "[disabledCall, forcedDisabledCall, disabledCall]"]
    render_switched_off
    [of disabledRenderer False exampleImports True True 16 16 "[]"]
  by (simp add: example_eval render_eval)

text \<open>
  C10. On a drawn frame with \<open>auto\<close>, the first event is the request for the next frame
  and the second is the clearing of the canvas; no other request follows. This holds
  whether or not the invocation ends with an exception, so a collaborator that throws
  leaves the next frame scheduled.
\<close>

theorem next_frame_scheduled_first:
  "auto \<and> drew (render env r g auto force t1 t2) \<longrightarrow>
     take 2 (trace (render env r g auto force t1 t2))
       = [RequestAnimationFrame,
          ClearRect 0 0 (of_nat (width (canvas r))) (of_nat (height (canvas r)))]
     \<and> RequestAnimationFrame \<notin> set (drop 2 (trace (render env r g auto force t1 t2)))"
proof (intro impI, elim conjE)
  assume "auto" and "drew (render env r g auto force t1 t2)"
  then have tr: "trace (render env r g auto force t1 t2) =
      [RequestAnimationFrame,
       ClearRect 0 0 (of_nat (width (canvas r))) (of_nat (height (canvas r)))]
      @ (fst (layers env r (decide r g force = Settle)) @
        (case snd (layers env r (decide r g force = Settle)) of
           Some e \<Rightarrow> []
         | None \<Rightarrow> fst (overlay env r (fpsOf t1 (frameTimeStart r)))))"
    by (simp add: drew_render trace_render_drawn schedule_def)
  have "RequestAnimationFrame \<notin> set (fst (layers env r (decide r g force = Settle)) @
        (case snd (layers env r (decide r g force = Settle)) of
           Some e \<Rightarrow> []
         | None \<Rightarrow> fst (overlay env r (fpsOf t1 (frameTimeStart r)))))"
    using layers_no_raf [of env r "decide r g force = Settle"]
      overlay_no_raf [of env r "fpsOf t1 (frameTimeStart r)"]
    by (simp split: option.splits)
  with tr show "take 2 (trace (render env r g auto force t1 t2))
       = [RequestAnimationFrame,
          ClearRect 0 0 (of_nat (width (canvas r))) (of_nat (height (canvas r)))]
     \<and> RequestAnimationFrame \<notin> set (drop 2 (trace (render env r g auto force t1 t2)))"
    by simp
qed

theorem next_frame_scheduled_first_witness:
  "drew (render exampleImports throwingRenderer False True False 16 16)
   \<and> thrown (render exampleImports throwingRenderer False True False 16 16)
       = Some (CollaboratorError ''lost'')
   \<and> trace (render exampleImports throwingRenderer False True False 16 16)
       = [RequestAnimationFrame, ClearRect 0 0 800 600, RenderWaveforms False]
   \<and> take 2 (trace (render exampleImports playingRenderer False True False 16 16))
       = [RequestAnimationFrame, ClearRect 0 0 800 600]
   \<and> thrown (render exampleImports playingRenderer False True False 16 16) = None"
  using next_frame_scheduled_first [of True exampleImports throwingRenderer False False 16 16]
    next_frame_scheduled_first [of True exampleImports playingRenderer False False 16 16]
  by (simp add: example_eval render_eval toString_eval)

end
